theory Spec2Isabelle
  imports Main
begin

section \<open>Lexical scanner\<close>

text \<open>
  The scanner functions of \<^verbatim>\<open>optimism.py\<close> work on a source string and character
  positions. Strings are character lists; positions are natural numbers (the callers
  pass positions obtained from \<^verbatim>\<open>get_src_index\<close>, \<^verbatim>\<open>str.index\<close> or another
  scanner function, never Python's from-the-end negative positions).
\<close>

abbreviation sq :: char where "sq \<equiv> CHR 0x27"
abbreviation dq :: char where "dq \<equiv> CHR 0x22"
abbreviation backslash :: char where "backslash \<equiv> CHR 0x5C"

text \<open>The slice \<^verbatim>\<open>src[at:at + 3]\<close>; Python slices never raise and are cut at the end.\<close>

definition slice3 :: "string \<Rightarrow> nat \<Rightarrow> string" where
  "slice3 src at = take 3 (drop at src)"

text \<open>
  \<^verbatim>\<open>unquoted_enumerate(src, start_index)\<close>: the generator's loop with its two local
  variables \<^verbatim>\<open>quote\<close> (\<^verbatim>\<open>None\<close>, a one-character string or a triple quote) and
  \<^verbatim>\<open>at\<close>. The list is the sequence of the pairs it yields. Each branch of the
  source's \<^verbatim>\<open>if\<close>/\<^verbatim>\<open>elif\<close> chain is one branch here, in the same order.
\<close>

function unquoted_loop :: "string \<Rightarrow> string option \<Rightarrow> nat \<Rightarrow> (nat \<times> char) list" where
  "unquoted_loop src quote at =
     (if at < length src then
        (if quote \<noteq> None \<and> src ! at = backslash then
           unquoted_loop src quote (at + 2)
         else if src ! at = dq \<or> src ! at = sq then
           (if quote = Some [src ! at] then
              unquoted_loop src None (at + 1)
            else if slice3 src at = [dq, dq, dq] \<or> slice3 src at = [sq, sq, sq] then
              (if Some (slice3 src at) = quote \<or> Some [slice3 src at ! 0] = quote then
                 unquoted_loop src None (at + 3)
               else if quote \<noteq> None then
                 unquoted_loop src quote (at + 3)
               else
                 unquoted_loop src (Some (slice3 src at)) (at + 3))
            else if quote = None then
              unquoted_loop src (Some [src ! at]) (at + 1)
            else
              unquoted_loop src quote (at + 1))
         else if quote \<noteq> None then
           unquoted_loop src quote (at + 1)
         else
           (at, src ! at) # unquoted_loop src quote (at + 1))
      else [])"
  by pat_completeness auto
termination
  by (relation "measure (\<lambda>(src, quote, at). length src - at)") auto

declare unquoted_loop.simps [simp del]

definition unquoted_enumerate :: "string \<Rightarrow> nat \<Rightarrow> (nat \<times> char) list" where
  "unquoted_enumerate src start_index = unquoted_loop src None start_index"

subsection \<open>Quoted-string spans, as the specification words them\<close>

text \<open>
  The specification describes what the scanner skips: the characters of a quoted string
  literal, opened by a single quote character or by a triple quote (of either style) and
  running through its closing delimiter, a backslash and the character after it being
  skipped as a unit. \<open>string_end src d q\<close> is the position just after the first closing
  delimiter \<open>d\<close> found from \<open>q\<close> on (the end of the text when the string is never
  closed); \<open>quoted_spans src p\<close> lists the half-open spans \<open>(start, end)\<close> of the quoted
  strings met from position \<open>p\<close> on, \<open>p\<close> itself taken as lying outside a string.
  These two functions follow the specification, not the scanner's loop; the scanner is
  compared with them below.
\<close>

function string_end :: "string \<Rightarrow> string \<Rightarrow> nat \<Rightarrow> nat" where
  "string_end src d q =
     (if length src \<le> q then length src
      else if src ! q = backslash then string_end src d (q + 2)
      else if take (length d) (drop q src) = d then q + length d
      else string_end src d (q + 1))"
  by pat_completeness auto
termination
  by (relation "measure (\<lambda>(src, d, q). length src - q)") auto

declare string_end.simps [simp del]

lemma take_drop_eq_length:
  assumes "take (length d) (drop q src) = d" and "q < length src"
  shows "q + length d \<le> length src"
proof -
  have "length (take (length d) (drop q src)) = length d" using assms(1) by simp
  then show ?thesis using assms(2) by simp
qed

lemma string_end_le: "string_end src d q \<le> length src"
proof (induction src d q rule: string_end.induct)
  case (1 src d q)
  then show ?case
    by (subst string_end.simps) (auto dest: take_drop_eq_length)
qed

lemma string_end_ge: "q \<le> length src \<Longrightarrow> q \<le> string_end src d q"
proof (induction src d q rule: string_end.induct)
  case (1 src d q)
  show ?case
  proof (cases "length src \<le> q")
    case True
    then show ?thesis using "1.prems" by (subst string_end.simps) simp
  next
    case F: False
    show ?thesis
    proof (cases "src ! q = backslash")
      case True
      show ?thesis
      proof (cases "q + 2 \<le> length src")
        case True
        with "1.IH"(1) F \<open>src ! q = backslash\<close> have "q + 2 \<le> string_end src d (q + 2)" by simp
        then show ?thesis using F \<open>src ! q = backslash\<close> by (subst string_end.simps) simp
      next
        case False
        then have "string_end src d (q + 2) = length src" by (subst string_end.simps) simp
        then show ?thesis using F \<open>src ! q = backslash\<close> by (subst string_end.simps) simp
      qed
    next
      case NB: False
      show ?thesis
      proof (cases "take (length d) (drop q src) = d")
        case True
        then show ?thesis using F NB by (subst string_end.simps) simp
      next
        case False
        with "1.IH"(2) F NB have "q + 1 \<le> string_end src d (q + 1)" by simp
        then show ?thesis using F NB False by (subst string_end.simps) simp
      qed
    qed
  qed
qed

function quoted_spans :: "string \<Rightarrow> nat \<Rightarrow> (nat \<times> nat) list" where
  "quoted_spans src p =
     (if length src \<le> p then []
      else if src ! p = sq \<or> src ! p = dq then
        (if slice3 src p = replicate 3 (src ! p) then
           (p, string_end src (replicate 3 (src ! p)) (p + 3))
             # quoted_spans src (string_end src (replicate 3 (src ! p)) (p + 3))
         else
           (p, string_end src [src ! p] (p + 1))
             # quoted_spans src (string_end src [src ! p] (p + 1)))
      else quoted_spans src (p + 1))"
  by pat_completeness auto
termination
proof (relation "measure (\<lambda>(src, p). length src - p)", goal_cases)
  case 1 show ?case by simp
next
  case (2 src p)
  then have "p < length src" by simp
  from 2 have "length (slice3 src p) = 3" by simp
  then have "p + 3 \<le> length src" by (simp add: slice3_def)
  from string_end_ge [OF this] have "p + 3 \<le> string_end src (replicate 3 (src ! p)) (p + 3)" .
  then show ?case using \<open>p < length src\<close> by simp
next
  case (3 src p)
  then have "p + 1 \<le> length src" by simp
  from string_end_ge [OF this] have "p + 1 \<le> string_end src [src ! p] (p + 1)" .
  then show ?case using 3 by simp
next
  case (4 src p) then show ?case by simp
qed

declare quoted_spans.simps [simp del]

definition in_spans :: "(nat \<times> nat) list \<Rightarrow> nat \<Rightarrow> bool" where
  "in_spans spans j = (\<exists>(a, b) \<in> set spans. a \<le> j \<and> j < b)"


lemma hd_take_drop:
  "q < length src \<Longrightarrow> 0 < n \<Longrightarrow> hd (take n (drop q src)) = src ! q"
  by (simp add: hd_drop_conv_nth)

lemma no_match:
  assumes "q < length src" and "d \<noteq> []" and "src ! q \<noteq> hd d"
  shows "take (length d) (drop q src) \<noteq> d"
proof
  assume "take (length d) (drop q src) = d"
  then have "hd (take (length d) (drop q src)) = hd d" by simp
  moreover have "hd (take (length d) (drop q src)) = src ! q"
    using assms(1,2) by (simp add: hd_drop_conv_nth)
  ultimately show False using assms(3) by simp
qed

lemma string_end_skip:
  assumes "q < length src" and "src ! q \<noteq> backslash" and "d \<noteq> []" and "src ! q \<noteq> hd d"
  shows "string_end src d q = string_end src d (q + 1)"
  using assms no_match [OF assms(1,3,4)] by (subst string_end.simps) simp

lemma slice3_triple:
  assumes "slice3 src q = [x, x, x]"
  shows "q + 2 < length src \<and> src ! q = x \<and> src ! (q + 1) = x \<and> src ! (q + 2) = x"
proof -
  have l: "length (slice3 src q) = 3" using assms by simp
  then have b: "q + 2 < length src" by (simp add: slice3_def)
  have "\<And>i. i < 3 \<Longrightarrow> slice3 src q ! i = src ! (q + i)"
    using b by (simp add: slice3_def)
  from this [of 0] this [of 1] this [of 2] show ?thesis using assms b by simp
qed

lemma slice3_tripleI:
  assumes "q + 2 < length src" "src ! q = x" "src ! (q + 1) = x" "src ! (q + 2) = x"
  shows "slice3 src q = [x, x, x]"
proof (rule nth_equalityI)
  show "length (slice3 src q) = length [x, x, x]" using assms(1) by (simp add: slice3_def)
next
  fix i assume "i < length (slice3 src q)"
  then have i: "i < 3" using assms(1) by (simp add: slice3_def)
  then have "slice3 src q ! i = src ! (q + i)" using assms(1) by (simp add: slice3_def)
  moreover from i have "i = 0 \<or> i = 1 \<or> i = 2" by arith
  ultimately show "slice3 src q ! i = [x, x, x] ! i" using assms by auto
qed

definition is_delim :: "string \<Rightarrow> bool" where
  "is_delim d = (d = [sq] \<or> d = [dq] \<or> d = [sq, sq, sq] \<or> d = [dq, dq, dq])"

lemma unquoted_loop_end: "length src \<le> q \<Longrightarrow> unquoted_loop src quote q = []"
  by (subst unquoted_loop.simps) simp

lemma unquoted_loop_in_quote:
  assumes "is_delim d"
  shows "unquoted_loop src (Some d) q = unquoted_loop src None (string_end src d q)"
proof (induction "length src - q" arbitrary: q rule: less_induct)
  case less
  have dne: "d \<noteq> []" and hd_d: "hd d = sq \<or> hd d = dq"
    using assms by (auto simp: is_delim_def)
  show ?case
  proof (cases "length src \<le> q")
    case True
    then have "string_end src d q = length src" by (subst string_end.simps) simp
    then show ?thesis using True by (simp add: unquoted_loop_end)
  next
    case False
    then have q: "q < length src" by simp
    have IH: "\<And>q'. q < q' \<Longrightarrow>
        unquoted_loop src (Some d) q' = unquoted_loop src None (string_end src d q')"
      using less q by simp
    show ?thesis
    proof (cases "src ! q = backslash")
      case True
      have "unquoted_loop src (Some d) q = unquoted_loop src (Some d) (q + 2)"
        using q True by (subst unquoted_loop.simps) simp
      moreover have "string_end src d q = string_end src d (q + 2)"
        using q True by (subst string_end.simps) simp
      ultimately show ?thesis using IH [of "q + 2"] by simp
    next
      case nb: False
      show ?thesis
      proof (cases "src ! q = dq \<or> src ! q = sq")
        case nq: False
        have "unquoted_loop src (Some d) q = unquoted_loop src (Some d) (q + 1)"
          using q nb nq by (subst unquoted_loop.simps) simp
        moreover have "string_end src d q = string_end src d (q + 1)"
          using q nb nq hd_d dne by (intro string_end_skip) auto
        ultimately show ?thesis using IH [of "q + 1"] by simp
      next
        case isq: True
        define x where "x = src ! q"
        have x: "src ! q = x" "x = dq \<or> x = sq" "x \<noteq> backslash"
          using isq nb by (auto simp: x_def)
        have tri: "(slice3 src q = [dq, dq, dq] \<or> slice3 src q = [sq, sq, sq])
            \<longleftrightarrow> slice3 src q = [x, x, x]"
          using x(1,2) slice3_triple [of src q dq] slice3_triple [of src q sq] by auto
        show ?thesis
        proof (cases "d = [x]")
          case True
          have "unquoted_loop src (Some d) q = unquoted_loop src None (q + 1)"
            using q x True by (subst unquoted_loop.simps) simp
          moreover have "take (length d) (drop q src) = d"
            using q x True by (simp add: take_Suc_conv_app_nth hd_drop_conv_nth take_Suc)
          then have "string_end src d q = q + 1"
            using q x True by (subst string_end.simps) simp
          ultimately show ?thesis by simp
        next
          case ns: False
          show ?thesis
          proof (cases "slice3 src q = [x, x, x]")
            case t: True
            note tt = slice3_triple [OF t]
            show ?thesis
            proof (cases "d = [x, x, x]")
              case True
              have "unquoted_loop src (Some d) q = unquoted_loop src None (q + 3)"
                using q x True t tri by (subst unquoted_loop.simps) simp
              moreover have "take (length d) (drop q src) = d"
                using t True by (simp add: slice3_def numeral_3_eq_3)
              then have "string_end src d q = q + 3"
                using q x True by (subst string_end.simps) simp
              ultimately show ?thesis by simp
            next
              case False
              then have hdx: "hd d \<noteq> x" using ns assms x(2) by (auto simp: is_delim_def)
              have "unquoted_loop src (Some d) q = unquoted_loop src (Some d) (q + 3)"
                using q x False ns t tri by (subst unquoted_loop.simps) simp
              moreover have "string_end src d q = string_end src d (q + 1)"
                using q x hdx dne by (intro string_end_skip) auto
              moreover have "string_end src d (q + 1) = string_end src d (q + 1 + 1)"
                using tt x hdx dne by (intro string_end_skip) auto
              moreover have "string_end src d (q + 2) = string_end src d (q + 2 + 1)"
                using tt x hdx dne by (intro string_end_skip) auto
              ultimately show ?thesis using IH [of "q + 3"] by (simp add: numeral_3_eq_3 numeral_2_eq_2)
            qed
          next
            case nt: False
            have "unquoted_loop src (Some d) q = unquoted_loop src (Some d) (q + 1)"
              using q x ns nt tri by (subst unquoted_loop.simps) simp
            moreover have "take (length d) (drop q src) \<noteq> d"
            proof (cases "hd d = x")
              case True
              then have "d = [x, x, x]" using ns assms by (auto simp: is_delim_def)
              then show ?thesis using nt by (auto simp: slice3_def numeral_3_eq_3)
            next
              case False
              then show ?thesis using q x dne by (intro no_match) auto
            qed
            then have "string_end src d q = string_end src d (q + 1)"
              using q x by (subst string_end.simps) simp
            ultimately show ?thesis using IH [of "q + 1"] by simp
          qed
        qed
      qed
    qed
  qed
qed

lemma quoted_spans_start:
  "(a, b) \<in> set (quoted_spans src p) \<Longrightarrow> p \<le> a"
proof (induction src p rule: quoted_spans.induct)
  case (1 src p)
  from "1.prems" have lt: "p < length src"
    by (subst (asm) quoted_spans.simps) (auto split: if_splits)
  show ?case
  proof (cases "src ! p = sq \<or> src ! p = dq")
    case False
    with "1.prems" lt have "(a, b) \<in> set (quoted_spans src (p + 1))"
      by (subst (asm) quoted_spans.simps) (auto split: if_splits)
    with "1.IH"(3) lt False show ?thesis by fastforce
  next
    case q: True
    show ?thesis
    proof (cases "slice3 src p = replicate 3 (src ! p)")
      case True
      define e where "e = string_end src (replicate 3 (src ! p)) (p + 3)"
      have "p + 3 \<le> length src" using slice3_triple [of src p "src ! p"] True
        by (simp add: numeral_3_eq_3)
      then have pe: "p + 3 \<le> e" unfolding e_def by (rule string_end_ge)
      from "1.prems" lt q True have "(a, b) = (p, e) \<or> (a, b) \<in> set (quoted_spans src e)"
        unfolding e_def by (subst (asm) quoted_spans.simps) (auto split: if_splits)
      then show ?thesis
      proof
        assume "(a, b) = (p, e)" then show ?thesis by simp
      next
        assume "(a, b) \<in> set (quoted_spans src e)"
        with "1.IH"(1) lt q True have "e \<le> a" unfolding e_def by simp
        with pe show ?thesis by simp
      qed
    next
      case False
      define e where "e = string_end src [src ! p] (p + 1)"
      have "p + 1 \<le> length src" using lt by simp
      then have pe: "p + 1 \<le> e" unfolding e_def by (rule string_end_ge)
      from "1.prems" lt q False have "(a, b) = (p, e) \<or> (a, b) \<in> set (quoted_spans src e)"
        unfolding e_def by (subst (asm) quoted_spans.simps) (auto split: if_splits)
      then show ?thesis
      proof
        assume "(a, b) = (p, e)" then show ?thesis by simp
      next
        assume "(a, b) \<in> set (quoted_spans src e)"
        with "1.IH"(2) lt q False have "e \<le> a" unfolding e_def by simp
        with pe show ?thesis by simp
      qed
    qed
  qed
qed

lemma filter_span_head:
  assumes "p \<le> e" and "e \<le> n"
  shows "filter (\<lambda>j. \<not> in_spans ((p, e) # spans) j) [p..<n]
       = filter (\<lambda>j. \<not> in_spans spans j) [e..<n]"
proof -
  have "[p..<n] = [p..<e] @ [e..<n]" using assms by (metis le_Suc_ex upt_add_eq_append)
  moreover have "filter (\<lambda>j. \<not> in_spans ((p, e) # spans) j) [p..<e] = []"
    by (auto simp: in_spans_def filter_empty_conv)
  moreover have "filter (\<lambda>j. \<not> in_spans ((p, e) # spans) j) [e..<n]
      = filter (\<lambda>j. \<not> in_spans spans j) [e..<n]"
    by (rule filter_cong) (auto simp: in_spans_def)
  ultimately show ?thesis by simp
qed

lemma unquoted_loop_spans:
  "map fst (unquoted_loop src None p)
     = filter (\<lambda>j. \<not> in_spans (quoted_spans src p) j) [p..<length src]"
proof (induction src p rule: quoted_spans.induct)
  case (1 src p)
  show ?case
  proof (cases "length src \<le> p")
    case True
    then show ?thesis by (simp add: unquoted_loop_end)
  next
    case False
    then have lt: "p < length src" by simp
    show ?thesis
    proof (cases "src ! p = sq \<or> src ! p = dq")
      case nq: False
      have "unquoted_loop src None p = (p, src ! p) # unquoted_loop src None (p + 1)"
        using lt nq by (subst unquoted_loop.simps) auto
      moreover have qs: "quoted_spans src p = quoted_spans src (p + 1)"
        using lt nq by (subst quoted_spans.simps) auto
      moreover have "\<not> in_spans (quoted_spans src (p + 1)) p"
        using quoted_spans_start [of _ _ src "p + 1"] by (fastforce simp: in_spans_def)
      moreover have "[p..<length src] = p # [p + 1..<length src]"
        using lt by (simp add: upt_conv_Cons)
      ultimately show ?thesis using "1.IH"(3) lt nq by simp
    next
      case q: True
      define x where "x = src ! p"
      have x: "src ! p = x" "x = dq \<or> x = sq" using q by (auto simp: x_def)
      have tri: "(slice3 src p = [dq, dq, dq] \<or> slice3 src p = [sq, sq, sq])
            \<longleftrightarrow> slice3 src p = [x, x, x]"
        using x slice3_triple [of src p dq] slice3_triple [of src p sq] by auto
      show ?thesis
      proof (cases "slice3 src p = [x, x, x]")
        case True
        define e where "e = string_end src [x, x, x] (p + 3)"
        have "p + 3 \<le> length src" using slice3_triple [OF True] by simp
        then have pe: "p + 3 \<le> e" unfolding e_def by (rule string_end_ge)
        have el: "e \<le> length src" unfolding e_def by (rule string_end_le)
        have "unquoted_loop src None p = unquoted_loop src (Some [x, x, x]) (p + 3)"
          using lt x True tri by (subst unquoted_loop.simps) auto
        also have "\<dots> = unquoted_loop src None e"
          unfolding e_def using x(2) by (intro unquoted_loop_in_quote) (auto simp: is_delim_def)
        finally have a: "unquoted_loop src None p = unquoted_loop src None e" .
        have b: "quoted_spans src p = (p, e) # quoted_spans src e"
          using lt x True unfolding e_def
          by (subst quoted_spans.simps) (auto simp: numeral_3_eq_3)
        have "map fst (unquoted_loop src None e)
            = filter (\<lambda>j. \<not> in_spans (quoted_spans src e) j) [e..<length src]"
          using "1.IH"(1) lt q True x unfolding e_def by (simp add: numeral_3_eq_3)
        then show ?thesis using a b filter_span_head [of p e "length src"] pe el by simp
      next
        case False
        define e where "e = string_end src [x] (p + 1)"
        have "p + 1 \<le> length src" using lt by simp
        then have pe: "p + 1 \<le> e" unfolding e_def by (rule string_end_ge)
        have el: "e \<le> length src" unfolding e_def by (rule string_end_le)
        have "unquoted_loop src None p = unquoted_loop src (Some [x]) (p + 1)"
          using lt x False tri by (subst unquoted_loop.simps) auto
        also have "\<dots> = unquoted_loop src None e"
          unfolding e_def using x(2) by (intro unquoted_loop_in_quote) (auto simp: is_delim_def)
        finally have a: "unquoted_loop src None p = unquoted_loop src None e" .
        have b: "quoted_spans src p = (p, e) # quoted_spans src e"
          using lt x False unfolding e_def
          by (subst quoted_spans.simps) (auto simp: numeral_3_eq_3)
        have "map fst (unquoted_loop src None e)
            = filter (\<lambda>j. \<not> in_spans (quoted_spans src e) j) [e..<length src]"
          using "1.IH"(2) lt q False x unfolding e_def by (simp add: numeral_3_eq_3)
        then show ?thesis using a b filter_span_head [of p e "length src"] pe el by simp
      qed
    qed
  qed
qed

lemma unquoted_loop_sound:
  "(j, c) \<in> set (unquoted_loop src quote at) \<Longrightarrow> at \<le> j \<and> j < length src \<and> c = src ! j"
proof (induction "length src - at" arbitrary: at quote rule: less_induct)
  case less
  from less.prems have lt: "at < length src"
    by (subst (asm) unquoted_loop.simps) (auto split: if_splits)
  have IH: "at' \<le> j \<and> j < length src \<and> c = src ! j"
    if "at < at'" and "(j, c) \<in> set (unquoted_loop src quote' at')" for at' quote'
  proof -
    from that(1) lt have "length src - at' < length src - at" by simp
    from less.hyps [OF this that(2)] show ?thesis .
  qed
  from less.prems lt have
    "(j, c) = (at, src ! at)
      \<or> (\<exists>quote' at'. at < at' \<and> (j, c) \<in> set (unquoted_loop src quote' at'))"
    by (subst (asm) unquoted_loop.simps) (auto split: if_splits)
  then show ?case
  proof
    assume "(j, c) = (at, src ! at)" then show ?thesis using lt by simp
  next
    assume "\<exists>quote' at'. at < at' \<and> (j, c) \<in> set (unquoted_loop src quote' at')"
    then obtain quote' at' where "at < at'" "(j, c) \<in> set (unquoted_loop src quote' at')" by blast
    with IH [of at' quote'] show ?thesis by fastforce
  qed
qed


subsection \<open>The quoting scenario\<close>

definition rqs :: string where
  "rqs = [CHR ''a'', sq, CHR ''b'', sq, sq, sq, CHR ''c'', dq, dq, dq, sq, sq, sq, dq,
          CHR ''d'', dq, sq, sq, sq, sq, dq, dq, dq, CHR ''e'', sq, sq, sq, dq, dq, dq,
          CHR ''f'', dq, dq, dq, sq, sq, sq]"

lemma unquoted_enumerate_rqs:
  "unquoted_enumerate rqs 0 = [(0, CHR ''a''), (6, CHR ''c''), (23, CHR ''e'')]"
  unfolding rqs_def unquoted_enumerate_def
  by (simp add: unquoted_loop.simps slice3_def)

text \<open>
  Claim C5. For every string \<open>s\<close> and start position \<open>i\<close>, every pair yielded by
  \<open>unquoted_enumerate s i\<close> is \<open>(j, s ! j)\<close> for a position \<open>j\<close> of the string with
  \<open>i \<le> j\<close>; the positions yielded are, in increasing order, exactly the positions
  from \<open>i\<close> on that lie in no quoted-string span, so the positions skipped are exactly
  those inside the spans; and on the text of the quoting scenario the scan from 0 yields
  exactly \<open>(0, a)\<close>, \<open>(6, c)\<close> and \<open>(23, e)\<close>.
\<close>

theorem unquoted_enumerate_skips_quoted_spans:
  "(\<forall>(j, c) \<in> set (unquoted_enumerate s i). i \<le> j \<and> j < length s \<and> c = s ! j)
   \<and> map fst (unquoted_enumerate s i)
       = filter (\<lambda>j. \<not> in_spans (quoted_spans s i) j) [i..<length s]
   \<and> unquoted_enumerate rqs 0 = [(0, CHR ''a''), (6, CHR ''c''), (23, CHR ''e'')]"
proof (intro conjI)
  show "\<forall>(j, c) \<in> set (unquoted_enumerate s i). i \<le> j \<and> j < length s \<and> c = s ! j"
    unfolding unquoted_enumerate_def using unquoted_loop_sound [of _ _ s None i] by blast
next
  show "map fst (unquoted_enumerate s i)
       = filter (\<lambda>j. \<not> in_spans (quoted_spans s i) j) [i..<length s]"
    unfolding unquoted_enumerate_def by (rule unquoted_loop_spans)
next
  show "unquoted_enumerate rqs 0 = [(0, CHR ''a''), (6, CHR ''c''), (23, CHR ''e'')]"
    by (rule unquoted_enumerate_rqs)
qed

theorem unquoted_enumerate_skips_quoted_spans_witness:
  "(6, CHR ''c'') \<in> set (unquoted_enumerate rqs 0)
   \<and> (0::nat) \<le> 6 \<and> 6 < length rqs \<and> CHR ''c'' = rqs ! 6
   \<and> filter (\<lambda>j. \<not> in_spans (quoted_spans rqs 0) j) [0..<length rqs] = [0, 6, 23]"
proof -
  have m: "(6, CHR ''c'') \<in> set (unquoted_enumerate rqs 0)"
    by (simp add: unquoted_enumerate_rqs)
  note t = unquoted_enumerate_skips_quoted_spans [of rqs 0]
  from t m have "(0::nat) \<le> 6 \<and> 6 < length rqs \<and> CHR ''c'' = rqs ! 6" by blast
  moreover from t have "map fst (unquoted_enumerate rqs 0)
      = filter (\<lambda>j. \<not> in_spans (quoted_spans rqs 0) j) [0..<length rqs]" by blast
  from this [symmetric]
  have "filter (\<lambda>j. \<not> in_spans (quoted_spans rqs 0) j) [0..<length rqs] = [0, 6, 23]"
    by (simp add: unquoted_enumerate_rqs)
  ultimately show ?thesis using m by blast
qed

section \<open>Matching delimiters\<close>

text \<open>Exceptions of the Python code are values of this type.\<close>

datatype error =
  IndexError | UnboundLocalError | AttributeError | TypeError | ValueError | SyntaxError
  | NameError

text \<open>
  \<^verbatim>\<open>find_closing_item(code, start_index, openclose)\<close>. The \<^verbatim>\<open>for\<close> loop over the
  scanner's pairs keeps \<^verbatim>\<open>level\<close> and the loop variable \<^verbatim>\<open>at\<close> (unbound before the
  first pair, hence an option) and stops at the \<^verbatim>\<open>break\<close>. \<^verbatim>\<open>openclose[0]\<close> and
  \<^verbatim>\<open>openclose[1]\<close> raise \<^verbatim>\<open>IndexError\<close> on a string shorter than two characters.
  \<open>closing_scan code first openclose\<close> is the body of the function for the scan starting
  at \<open>first\<close>, which is \<^verbatim>\<open>start_index + 1\<close>.
\<close>


fun closing_loop :: "char \<Rightarrow> char \<Rightarrow> int \<Rightarrow> nat option \<Rightarrow> (nat \<times> char) list \<Rightarrow> int \<times> nat option" where
  "closing_loop open_delim close_delim level at [] = (level, at)"
| "closing_loop open_delim close_delim level at ((j, char) # rest) =
     (if char = open_delim then
        closing_loop open_delim close_delim (level + 1) (Some j) rest
      else if char = close_delim then
        (if level - 1 < 1 then (level - 1, Some j)
         else closing_loop open_delim close_delim (level - 1) (Some j) rest)
      else closing_loop open_delim close_delim level (Some j) rest)"

definition closing_scan :: "string \<Rightarrow> nat \<Rightarrow> string \<Rightarrow> error + nat option" where
  "closing_scan code first openclose =
     (if length openclose < 2 then Inl IndexError
      else
        (case closing_loop (openclose ! 0) (openclose ! 1) 1 None
                (unquoted_enumerate code first) of
           (level, at) \<Rightarrow>
             if level = 0 then
               (case at of None \<Rightarrow> Inl UnboundLocalError | Some k \<Rightarrow> Inr (Some k))
             else Inr None))"

definition find_closing_item :: "string \<Rightarrow> nat \<Rightarrow> string \<Rightarrow> error + nat option" where
  "find_closing_item code start_index openclose = closing_scan code (start_index + 1) openclose"
























section \<open>Syntax trees\<close>

text \<open>
  A node of Python's \<^verbatim>\<open>ast\<close> module: its class (by name), its position attributes when it
  has them (\<^verbatim>\<open>lineno\<close>, \<^verbatim>\<open>col_offset\<close> and the end position, absent on older parsers), its
  identifier (\<^verbatim>\<open>id\<close> of a \<^verbatim>\<open>Name\<close>, \<^verbatim>\<open>attr\<close> of an \<^verbatim>\<open>Attribute\<close>) and its child fields in
  the order of \<^verbatim>\<open>_fields\<close>. A field is a list of optional nodes: a single child is a
  one-element list, \<^verbatim>\<open>None\<close> is \<open>None\<close>. Context and operator objects carry no position and
  no children and are left out. The identity of a node object is its place in the tree:
  a path of steps (field name, index in the field) from the root.
\<close>

type_synonym kind = string

record position =
  lineno :: nat
  col_offset :: nat
  end_lineno :: "nat option"
  end_col_offset :: "nat option"

datatype node =
  Node (kind: kind) (pos: "position option") (ident: string)
       (fields: "(string \<times> node option list) list")

definition field :: "node \<Rightarrow> string \<Rightarrow> node option list" where
  "field n f = (case map_of (fields n) f of None \<Rightarrow> [] | Some cs \<Rightarrow> cs)"

type_synonym step = "string \<times> nat"
type_synonym path = "step list"

datatype part = Field string | Reversed string | Item string nat

datatype item = AstNode path node | ListReverseIterator


lemma field_size: "Some c \<in> set (field n f) \<Longrightarrow> size c < size n"
proof -
  assume a: "Some c \<in> set (field n f)"
  obtain k p i fs where n: "n = Node k p i fs" by (cases n)
  from a n obtain cs where m: "map_of fs f = Some cs" and c: "Some c \<in> set cs"
    by (cases "map_of fs f") (auto simp: field_def)
  from m have fc: "(f, cs) \<in> set fs" by (rule map_of_SomeD)
  have "size c < size_option size (Some c)" by simp
  with c have "size c < size_list (size_option size) cs" by (rule size_list_estimation)
  then have "size c < size_prod (\<lambda>_. 0) (size_list (size_option size)) (f, cs)" by simp
  with fc have "size c < size_list (size_prod (\<lambda>_. 0) (size_list (size_option size))) fs"
    by (rule size_list_estimation)
  then show ?thesis using n by simp
qed

text \<open>
  \<^verbatim>\<open>walk_ast_in_order(node)\<close>. \<open>walk_order\<close> is the source's chain of \<^verbatim>\<open>isinstance\<close>
  tests: for each class of node, the sub-parts walked, in the order of the
  \<^verbatim>\<open>yield from\<close> lines. \<open>Field f\<close> stands for \<^verbatim>\<open>walk_ast_in_order(node.f)\<close> (a node, \<^verbatim>\<open>None\<close>
  or a list, walked element by element), \<open>Item f i\<close> for \<^verbatim>\<open>walk_ast_in_order(node.f[i])\<close>
  (the \<^verbatim>\<open>Dict\<close> loop, whose parser-built \<^verbatim>\<open>keys\<close> and \<^verbatim>\<open>values\<close> have one length), and
  \<open>Reversed f\<close> for \<^verbatim>\<open>walk_ast_in_order(reversed(node.f))\<close>: \<^verbatim>\<open>reversed\<close> returns an iterator
  object, which is neither a list nor a tuple, so the call falls to the last branch and
  yields the iterator object itself. \<^verbatim>\<open>posonlyargs\<close> is walked when the attribute exists;
  a missing field reads as empty here. A class the chain does not name yields only
  itself.
\<close>

fun walk_order :: "node \<Rightarrow> part list" where
  "walk_order n =
     (if kind n \<in> {''Module'', ''Interactive'', ''Expression''} then [Field ''body'']
      else if kind n = ''FunctionType'' then [Field ''argtypes'', Field ''returns'']
      else if kind n \<in> {''FunctionDef'', ''AsyncFunctionDef''} then
        [Field ''args'', Field ''returns'', Reversed ''decorator_list'', Field ''body'']
      else if kind n = ''ClassDef'' then
        [Field ''bases'', Field ''keywords'', Reversed ''decorator_list'', Field ''body'']
      else if kind n = ''Return'' then [Field ''value'']
      else if kind n = ''Delete'' then [Field ''targets'']
      else if kind n = ''Assign'' then [Field ''value'', Field ''targets'']
      else if kind n = ''AugAssign'' then [Field ''value'', Field ''target'']
      else if kind n = ''AnnAssign'' then [Field ''value'', Field ''annotation'', Field ''target'']
      else if kind n \<in> {''For'', ''AsyncFor''} then
        [Field ''iter'', Field ''target'', Field ''body'', Field ''orelse'']
      else if kind n \<in> {''While'', ''If'', ''IfExp''} then [Field ''test'', Field ''body'', Field ''orelse'']
      else if kind n \<in> {''With'', ''AsyncWith''} then [Field ''items'', Field ''items'']
      else if kind n = ''Raise'' then [Field ''cause'', Field ''exc'']
      else if kind n = ''Try'' then
        [Field ''body'', Field ''handlers'', Field ''orelse'', Field ''finalbody'']
      else if kind n = ''Assert'' then [Field ''test'', Field ''msg'']
      else if kind n = ''Expr'' then [Field ''value'']
      else if kind n = ''BoolOp'' then [Field ''values'']
      else if kind n = ''NamedExpr'' then [Field ''value'', Field ''target'']
      else if kind n = ''BinOp'' then [Field ''left'', Field ''right'']
      else if kind n = ''UnaryOp'' then [Field ''operand'']
      else if kind n = ''Lambda'' then [Field ''args'', Field ''body'']
      else if kind n = ''Dict'' then
        concat (map (\<lambda>i. [Item ''keys'' i, Item ''values'' i]) [0..<length (field n ''keys'')])
      else if kind n \<in> {''Tuple'', ''List'', ''Set''} then [Field ''elts'']
      else if kind n \<in> {''ListComp'', ''SetComp'', ''GeneratorExp''} then
        [Field ''generators'', Field ''elt'']
      else if kind n = ''DictComp'' then [Field ''generators'', Field ''key'', Field ''value'']
      else if kind n \<in> {''Await'', ''Yield'', ''YieldFrom''} then [Field ''value'']
      else if kind n = ''Compare'' then [Field ''left'', Field ''comparators'']
      else if kind n = ''Call'' then [Field ''func'', Field ''args'', Field ''keywords'']
      else if kind n = ''FormattedValue'' then [Field ''value'', Field ''format_spec'']
      else if kind n = ''JoinedStr'' then [Field ''values'']
      else if kind n \<in> {''Attribute'', ''Starred''} then [Field ''value'']
      else if kind n = ''Subscript'' then [Field ''value'', Field ''slice'']
      else if kind n = ''Slice'' then [Field ''lower'', Field ''upper'', Field ''step'']
      else if kind n = ''comprehension'' then [Field ''iter'', Field ''ifs'', Field ''target'']
      else if kind n = ''ExceptHandler'' then [Field ''type'', Field ''body'']
      else if kind n = ''arguments'' then
        [Field ''defaults'', Field ''kw_defaults'', Field ''posonlyargs'', Field ''args'',
         Field ''vararg'', Field ''kwonlyargs'', Field ''kwarg'']
      else if kind n = ''arg'' then [Field ''annotation'']
      else if kind n = ''keyword'' then [Field ''value'']
      else if kind n = ''withitem'' then [Field ''context_expr'', Field ''optional_vars'']
      else [])"

fun part_children :: "node \<Rightarrow> part \<Rightarrow> (step \<times> node) list option" where
  "part_children n (Field f) =
     Some (concat (map (\<lambda>(i, c). case c of None \<Rightarrow> [] | Some ch \<Rightarrow> [((f, i), ch)])
                       (enumerate 0 (field n f))))"
| "part_children n (Item f i) =
     Some (if i < length (field n f)
           then (case field n f ! i of None \<Rightarrow> [] | Some ch \<Rightarrow> [((f, i), ch)]) else [])"
| "part_children n (Reversed f) = None"

lemma part_children_size:
  "part_children n pt = Some cs \<Longrightarrow> (s, ch) \<in> set cs \<Longrightarrow> size ch < size n"
proof (cases pt)
  case (Field f)
  assume "part_children n pt = Some cs" "(s, ch) \<in> set cs"
  with Field obtain i c where "(i, c) \<in> set (enumerate 0 (field n f))" "c = Some ch"
    by (auto split: option.splits)
  then have "\<exists>j < length (field n f). field n f ! j = Some ch"
    by (auto simp: in_set_enumerate_eq)
  then have "Some ch \<in> set (field n f)" by (auto simp: in_set_conv_nth)
  then show ?thesis by (rule field_size)
next
  case (Item f i)
  assume "part_children n pt = Some cs" "(s, ch) \<in> set cs"
  with Item have "i < length (field n f)" "field n f ! i = Some ch"
    by (auto split: option.splits if_splits)
  then have "Some ch \<in> set (field n f)" by (auto simp: in_set_conv_nth)
  then show ?thesis by (rule field_size)
next
  case (Reversed f)
  assume "part_children n pt = Some cs"
  with Reversed show ?thesis by simp
qed

function walk_ast_in_order :: "path \<Rightarrow> node \<Rightarrow> item list" where
  "walk_ast_in_order p n =
     concat (map (\<lambda>pt. case part_children n pt of
                          None \<Rightarrow> [ListReverseIterator]
                        | Some cs \<Rightarrow> concat (map (\<lambda>(s, ch). walk_ast_in_order (p @ [s]) ch) cs))
                 (walk_order n))
     @ [AstNode p n]"
  by pat_completeness auto
termination
  by (relation "measure (\<lambda>(p, n). size n)") (auto dest: part_children_size)

declare walk_ast_in_order.simps [simp del]
declare walk_order.simps [simp del]


definition name_node :: "nat \<Rightarrow> nat \<Rightarrow> string \<Rightarrow> node" where
  "name_node line col s =
     Node ''Name'' (Some \<lparr>lineno = line, col_offset = col, end_lineno = Some line,
                       end_col_offset = Some (col + length s)\<rparr>) s []"

definition span :: "nat \<Rightarrow> nat \<Rightarrow> nat \<Rightarrow> position option" where
  "span line col end_col =
     Some \<lparr>lineno = line, col_offset = col, end_lineno = Some line,
            end_col_offset = Some end_col\<rparr>"

text \<open>
  The tree of the docstring's example \<^verbatim>\<open>x = [A for y in C if D]\<close>, with the fields of
  each node in the parser's order.
\<close>
definition docstring_example :: node where
  "docstring_example =
     Node ''Assign'' (span 1 0 23) []
       [(''targets'', [Some (name_node 1 0 ''x'')]),
        (''value'', [Some (Node ''ListComp'' (span 1 4 23) []
           [(''elt'', [Some (name_node 1 5 ''A'')]),
            (''generators'', [Some (Node ''comprehension'' None []
               [(''target'', [Some (name_node 1 11 ''y'')]),
                (''iter'', [Some (name_node 1 16 ''C'')]),
                (''ifs'', [Some (name_node 1 21 ''D'')])])])])])]"

fun label :: "item \<Rightarrow> kind \<times> string" where
  "label (AstNode p n) = (kind n, ident n)"
| "label ListReverseIterator = (''list_reverseiterator'', [])"


text \<open>
  Claim C4 (the code departs from it: the comprehension branch walks \<^verbatim>\<open>iter\<close>, then
  \<^verbatim>\<open>ifs\<close>, then \<^verbatim>\<open>target\<close>). On the docstring's own example the walk yields \<open>C\<close>, then
  the filter condition \<open>D\<close>, then the loop variable \<open>y\<close>, the comprehension, the element
  \<open>A\<close>, the list comprehension, the target \<open>x\<close> and the assignment: the filter condition
  comes before the loop variable, where the claim and the docstring put the loop
  variable first.
\<close>

theorem walk_ast_in_order_docstring_example: "map label (walk_ast_in_order [] docstring_example) =
  [(''Name'', ''C''), (''Name'', ''D''), (''Name'', ''y''), (''comprehension'', []),
  (''Name'', ''A''), (''ListComp'', []), (''Name'', ''x''), (''Assign'', [])]"
  unfolding docstring_example_def name_node_def span_def
  by (simp add: walk_ast_in_order.simps walk_order.simps field_def enumerate_eq_zip)


section \<open>Parent links\<close>

text \<open>
  A reference to a node object is its path together with the node. \<^verbatim>\<open>assign_parents\<close>
  stores a \<^verbatim>\<open>parent\<close> attribute on node objects: the store maps the path of a node to the
  value of its attribute (\<open>None\<close> in the store: no such attribute; \<open>Some None\<close>: the
  attribute is \<^verbatim>\<open>None\<close>).
\<close>

type_synonym ref = "path \<times> node"
type_synonym parents = "path \<rightharpoonup> ref option"

text \<open>
  \<^verbatim>\<open>ast.iter_child_nodes\<close> yields the child nodes field by field, and \<^verbatim>\<open>ast.walk\<close> visits
  the nodes breadth first, from a queue that starts with the root.
\<close>

definition iter_child_nodes :: "node \<Rightarrow> (step \<times> node) list" where
  "iter_child_nodes n =
     concat (map (\<lambda>(f, cs).
               concat (map (\<lambda>(i, c). case c of None \<Rightarrow> [] | Some ch \<Rightarrow> [((f, i), ch)])
                           (enumerate 0 cs)))
             (fields n))"

lemma iter_child_nodes_size:
  assumes "(s, c) \<in> set (iter_child_nodes n)"
  shows "size c < size n"
proof -
  obtain k ps i fs where n: "n = Node k ps i fs" by (cases n)
  from assms n obtain f cs j where fc: "(f, cs) \<in> set fs" and c: "(j, Some c) \<in> set (enumerate 0 cs)"
    by (auto simp: iter_child_nodes_def split: option.splits)
  from c have "j < length cs \<and> cs ! j = Some c" by (auto simp: in_set_enumerate_eq)
  then have "Some c \<in> set cs" by (metis nth_mem)
  moreover have "size c < size_option size (Some c)" by simp
  ultimately have "size c < size_list (size_option size) cs" by (rule size_list_estimation)
  then have "size c < size_prod (\<lambda>_. 0) (size_list (size_option size)) (f, cs)" by simp
  with fc have "size c < size_list (size_prod (\<lambda>_. 0) (size_list (size_option size))) fs"
    by (rule size_list_estimation)
  then show ?thesis using n by simp
qed


definition field_children :: "string \<Rightarrow> nat \<Rightarrow> node option list \<Rightarrow> (step \<times> node) list" where
  "field_children f k cs =
     concat (map (\<lambda>(i, c). case c of None \<Rightarrow> [] | Some ch \<Rightarrow> [((f, i), ch)]) (enumerate k cs))"

lemma field_children_sum:
  "sum_list (map (\<lambda>x. size (snd x)) (field_children f k cs)) \<le> size_list (size_option size) cs"
proof (induction cs arbitrary: k)
  case Nil
  show ?case by (simp add: field_children_def)
next
  case (Cons c cs)
  have "field_children f k (c # cs)
      = (case c of None \<Rightarrow> [] | Some ch \<Rightarrow> [((f, k), ch)]) @ field_children f (Suc k) cs"
    by (simp add: field_children_def)
  then show ?case using Cons [of "Suc k"] by (cases c) auto
qed

lemma sum_children_size:
  "sum_list (map (\<lambda>x. size (snd x)) (iter_child_nodes n)) < size n"
proof -
  obtain k ps i fs where n: "n = Node k ps i fs" by (cases n)
  have "sum_list (map (\<lambda>x. size (snd x))
          (concat (map (\<lambda>(f, cs). field_children f 0 cs) fs)))
      \<le> size_list (size_prod (\<lambda>_. 0) (size_list (size_option size))) fs"
  proof (induction fs)
    case Nil
    show ?case by simp
  next
    case (Cons fc fs)
    obtain f cs where fc: "fc = (f, cs)" by (cases fc)
    show ?case using Cons field_children_sum [of f 0 cs] by (simp add: fc)
  qed
  then show ?thesis by (simp add: n iter_child_nodes_def field_children_def)
qed

function ast_walk :: "ref list \<Rightarrow> ref list" where
  "ast_walk [] = []"
| "ast_walk ((p, n) # todo) =
     (p, n) # ast_walk (todo @ map (\<lambda>(s, c). (p @ [s], c)) (iter_child_nodes n))"
  by pat_completeness auto
termination
proof (relation "measure (\<lambda>todo. sum_list (map (\<lambda>(p, n). size n) todo))", goal_cases)
  case 1 show ?case by simp
next
  case (2 p n todo)
  show ?case using sum_children_size [of n] by (simp add: comp_def case_prod_beta)
qed

text \<open>
  \<^verbatim>\<open>assign_parents(root)\<close>: for every node of \<^verbatim>\<open>ast.walk(root)\<close> and every child of it,
  \<^verbatim>\<open>child.parent = node\<close>; then \<^verbatim>\<open>root.parent = None\<close>.
\<close>

fun assign_children :: "ref \<Rightarrow> (step \<times> node) list \<Rightarrow> parents \<Rightarrow> parents" where
  "assign_children r [] st = st"
| "assign_children r ((s, child) # rest) st =
     assign_children r rest (st(fst r @ [s] \<mapsto> Some r))"

fun assign_nodes :: "ref list \<Rightarrow> parents \<Rightarrow> parents" where
  "assign_nodes [] st = st"
| "assign_nodes ((p, n) # rest) st =
     assign_nodes rest (assign_children (p, n) (iter_child_nodes n) st)"

definition assign_parents :: "ref \<Rightarrow> parents \<Rightarrow> parents" where
  "assign_parents root st = (assign_nodes (ast_walk [root]) st)(fst root \<mapsto> None)"

definition getattr_parent :: "parents \<Rightarrow> path \<Rightarrow> ref option" where
  "getattr_parent st p = (case st p of None \<Rightarrow> None | Some r \<Rightarrow> r)"

text \<open>
  The \<^verbatim>\<open>while\<close> loop of the fallback search: from \<open>here\<close>, follow \<^verbatim>\<open>parent\<close> attributes until
  \<open>here\<close> is \<^verbatim>\<open>None\<close> or a node of one of the listed classes (\<^verbatim>\<open>Call\<close> and the statement
  classes). The loop follows whatever the store holds, so it is a partial function:
  \<open>None\<close> is a loop that never ends.
\<close>

definition boundary_kinds :: "kind set" where
  "boundary_kinds =
     {''Call'', ''Module'', ''Interactive'', ''Expression'', ''FunctionDef'',
      ''AsyncFunctionDef'', ''ClassDef'', ''Return'', ''Delete'', ''Assign'', ''AugAssign'',
      ''AnnAssign'', ''For'', ''AsyncFor'', ''While'', ''If'', ''With'', ''AsyncWith'',
      ''Raise'', ''Try'', ''Assert''}"

partial_function (option) climb :: "parents \<Rightarrow> ref option \<Rightarrow> ref option option" where
  "climb st here =
     (case here of
        None \<Rightarrow> Some None
      | Some (p, n) \<Rightarrow>
          if kind n \<in> boundary_kinds then Some (Some (p, n))
          else climb st (getattr_parent st p))"

declare climb.simps [code]


section \<open>Call-site resolver\<close>

text \<open>
  The function looked for is a function object (with its \<^verbatim>\<open>__name__\<close>) or a name string.
  Values of the running program are object references of an arbitrary type \<open>'v\<close>, equal
  when they are the same object. A frame gives what \<^verbatim>\<open>get_filename\<close> and \<^verbatim>\<open>get_code_line\<close>
  read from it, the module name, and the result of compiling and evaluating an expression
  node in it (a value or an exception). \<open>host\<close> records which optional facilities the
  \<^verbatim>\<open>ast\<close> module of the running Python has.
\<close>

datatype 'v target = FunctionObject 'v string | NameString string

record 'v frame =
  f_filename :: "string option"
  f_lineno :: nat
  f_name :: "string option"
  f_eval :: "node \<Rightarrow> error + 'v"

definition evaluate_in_context :: "node \<Rightarrow> 'v frame \<Rightarrow> error + 'v" where
  "evaluate_in_context n frame = f_eval frame n"

record host =
  ast_unparse :: "(node \<Rightarrow> string) option"
  has_get_source_segment :: bool
  has_Index :: bool
  has_ExtSlice :: bool

text \<open>Reading a single-node attribute such as \<^verbatim>\<open>call_node.func\<close>.\<close>

definition attr :: "node \<Rightarrow> string \<Rightarrow> error + node" where
  "attr n f = (case field n f of Some c # _ \<Rightarrow> Inr c | _ \<Rightarrow> Inl AttributeError)"

definition call_matches :: "host \<Rightarrow> 'v frame \<Rightarrow> 'v target \<Rightarrow> node \<Rightarrow> error + bool" where
  "call_matches h frame function call_node =
     (case attr call_node ''func'' of
        Inl e \<Rightarrow> Inl e
      | Inr call_expr \<Rightarrow>
          (case function of
             NameString s \<Rightarrow>
               Inr ((kind call_expr = ''Name'' \<and> ident call_expr = s)
                    \<or> (kind call_expr = ''Attribute'' \<and> ident call_expr = s)
                    \<or> (case ast_unparse h of None \<Rightarrow> False | Some u \<Rightarrow> u call_expr = s))
           | FunctionObject obj nm \<Rightarrow>
               (case evaluate_in_context call_expr frame of
                  Inl e \<Rightarrow> Inl e
                | Inr v \<Rightarrow> Inr (v = obj))))"

text \<open>
  \<^verbatim>\<open>find_call_nodes_on_line(node, frame, function, lineno)\<close>: the first loop collects the
  nodes of the line and, among them, the matching calls; when it found none, the second
  loop climbs from each node of the line and appends the call it reaches, if that call
  matches. An exception of \<open>call_matches\<close> ends the function.
\<close>

definition has_lineno :: "node \<Rightarrow> nat \<Rightarrow> bool" where
  "has_lineno n l = (case pos n of None \<Rightarrow> False | Some ps \<Rightarrow> lineno ps = l)"

fun primary_search ::
  "(node \<Rightarrow> error + bool) \<Rightarrow> nat \<Rightarrow> item list \<Rightarrow> ref list \<Rightarrow> ref list
     \<Rightarrow> error + (ref list \<times> ref list)" where
  "primary_search m l [] result all_on_line = Inr (result, all_on_line)"
| "primary_search m l (ListReverseIterator # rest) result all_on_line =
     primary_search m l rest result all_on_line"
| "primary_search m l (AstNode p child # rest) result all_on_line =
     (if has_lineno child l then
        (if kind child = ''Call'' then
           (case m child of
              Inl e \<Rightarrow> Inl e
            | Inr b \<Rightarrow>
                primary_search m l rest (if b then result @ [(p, child)] else result)
                  (all_on_line @ [(p, child)]))
         else primary_search m l rest result (all_on_line @ [(p, child)]))
      else primary_search m l rest result all_on_line)"

fun fallback_search ::
  "(node \<Rightarrow> error + bool) \<Rightarrow> parents \<Rightarrow> ref list \<Rightarrow> ref list
     \<Rightarrow> (error + ref list) option" where
  "fallback_search m st [] result = Some (Inr result)"
| "fallback_search m st ((p, on_line) # rest) result =
     (case climb st (getattr_parent st p) of
        None \<Rightarrow> None
      | Some None \<Rightarrow> fallback_search m st rest result
      | Some (Some (q, here)) \<Rightarrow>
          (if kind here = ''Call'' then
             (case m here of
                Inl e \<Rightarrow> Some (Inl e)
              | Inr b \<Rightarrow> fallback_search m st rest (if b then result @ [(q, here)] else result))
           else fallback_search m st rest result))"

definition find_call_nodes_on_line ::
  "host \<Rightarrow> parents \<Rightarrow> ref \<Rightarrow> 'v frame \<Rightarrow> 'v target \<Rightarrow> nat \<Rightarrow> (error + ref list) option" where
  "find_call_nodes_on_line h st root frame function l =
     (case primary_search (call_matches h frame function) l
             (walk_ast_in_order (fst root) (snd root)) [] [] of
        Inl e \<Rightarrow> Some (Inl e)
      | Inr (result, all_on_line) \<Rightarrow>
          if length result = 0
          then fallback_search (call_matches h frame function) st all_on_line result
          else Some (Inr result))"

text \<open>
  \<^verbatim>\<open>is_inside_call_func(node)\<close>; \<^verbatim>\<open>node.parent.func is node\<close> holds when the parent has a
  \<^verbatim>\<open>func\<close> child and the node is at that place.
\<close>

partial_function (option) is_inside_call_func :: "parents \<Rightarrow> ref \<Rightarrow> bool option" where
  "is_inside_call_func st r =
     (case getattr_parent st (fst r) of
        None \<Rightarrow> Some False
      | Some (q, parent) \<Rightarrow>
          if kind parent = ''Call''
             \<and> (case field parent ''func'' of Some c # _ \<Rightarrow> fst r = q @ [(''func'', 0)] | _ \<Rightarrow> False)
          then Some True
          else is_inside_call_func st (q, parent))"

declare is_inside_call_func.simps [code]

subsection \<open>A call over two lines\<close>

definition const_node :: "nat \<Rightarrow> nat \<Rightarrow> string \<Rightarrow> node" where
  "const_node line col s =
     Node ''Constant'' (Some \<lparr>lineno = line, col_offset = col, end_lineno = Some line,
                       end_col_offset = Some (col + length s)\<rparr>) s []"




definition host39 :: host where
  "host39 = \<lparr>ast_unparse = None, has_get_source_segment = True, has_Index = True,
     has_ExtSlice = True\<rparr>"



subsection \<open>Stores built by \<open>assign_parents\<close>\<close>

text \<open>
  In a store that \<open>assign_parents\<close> built, every parent link leads from a path to the path
  one step shorter; on such a store the climbing loop ends.
\<close>

definition wf_parents :: "parents \<Rightarrow> bool" where
  "wf_parents st = (\<forall>p q n. st p = Some (Some (q, n)) \<longrightarrow> (\<exists>s. p = q @ [s]))"

lemma wf_parents_empty: "wf_parents Map.empty"
  by (simp add: wf_parents_def)

lemma wf_parents_child: "wf_parents st \<Longrightarrow> wf_parents (st(p @ [s] \<mapsto> Some (p, n)))"
  by (auto simp: wf_parents_def)

lemma wf_parents_root: "wf_parents st \<Longrightarrow> wf_parents (st(p \<mapsto> None))"
  by (auto simp: wf_parents_def)

lemma wf_parents_children:
  "wf_parents st \<Longrightarrow> wf_parents (assign_children r cs st)"
proof (induction cs arbitrary: st)
  case Nil
  then show ?case by simp
next
  case (Cons x cs)
  obtain s c where x: "x = (s, c)" by (cases x)
  obtain p n where r: "r = (p, n)" by (cases r)
  from Cons.prems have "wf_parents (st(p @ [s] \<mapsto> Some (p, n)))" by (rule wf_parents_child)
  from Cons.IH [OF this] show ?case by (simp only: x r assign_children.simps fst_conv)
qed

lemma wf_parents_nodes:
  "wf_parents st \<Longrightarrow> wf_parents (assign_nodes rs st)"
proof (induction rs arbitrary: st)
  case Nil
  then show ?case by simp
next
  case (Cons r rs)
  obtain p n where r: "r = (p, n)" by (cases r)
  from Cons.prems have "wf_parents (assign_children (p, n) (iter_child_nodes n) st)"
    by (rule wf_parents_children)
  from Cons.IH [OF this] show ?case by (simp only: r assign_nodes.simps)
qed

lemma assign_parents_wf: "wf_parents st \<Longrightarrow> wf_parents (assign_parents root st)"
  unfolding assign_parents_def by (intro wf_parents_root wf_parents_nodes)



text \<open>
  What one node of the line adds in the fallback search: the call its climb ends at, when
  that is a call and matches.
\<close>

definition contribution :: "(node \<Rightarrow> error + bool) \<Rightarrow> parents \<Rightarrow> ref \<Rightarrow> ref list" where
  "contribution m st on_line =
     (case climb st (getattr_parent st (fst on_line)) of
        Some (Some (q, here)) \<Rightarrow>
          if kind here = ''Call'' \<and> m here = Inr True then [(q, here)] else []
      | _ \<Rightarrow> [])"



lemma contribution_cases:
  assumes "wf_parents st"
  shows "contribution m st (p, n) = []
     \<or> (\<exists>q c. contribution m st (p, n) = [(q, c)] \<and> kind c = ''Call'' \<and> m c = Inr True
            \<and> climb st (getattr_parent st p) = Some (Some (q, c)))"
  by (auto simp: contribution_def split: option.splits)














section \<open>Library functions\<close>

text \<open>
  The functions of Python's standard library that the extractor calls, modelled from
  their documented behaviour on ASCII text (where a character, a code point and a UTF-8
  byte are the same thing): \<^verbatim>\<open>str.splitlines\<close>, the line splitter of the \<^verbatim>\<open>ast\<close> module
  (which keeps the line ends and breaks at \<^verbatim>\<open>\n\<close>, \<^verbatim>\<open>\r\<close> and \<^verbatim>\<open>\r\n\<close> only),
  \<^verbatim>\<open>str.strip\<close>, \<^verbatim>\<open>textwrap.dedent\<close> (blank out the lines of spaces and tabs, take the
  longest common leading run of spaces and tabs of the other lines, remove it from every
  line that starts with it), list indexing with Python's negative indices, and
  \<^verbatim>\<open>ast.get_source_segment\<close>, which returns \<^verbatim>\<open>None\<close> for a node without end position.
\<close>

abbreviation LF :: char where "LF \<equiv> CHR 0x0A"
abbreviation CR :: char where "CR \<equiv> CHR 0x0D"

fun split_lines :: "(char \<Rightarrow> bool) \<Rightarrow> bool \<Rightarrow> string \<Rightarrow> string \<Rightarrow> string list" where
  "split_lines br keep cur [] = (if cur = [] then [] else [cur])"
| "split_lines br keep cur [c] =
     (if br c then [cur @ (if keep then [c] else [])] else [cur @ [c]])"
| "split_lines br keep cur (c # d # rest) =
     (if c = CR \<and> d = LF then (cur @ (if keep then [c, d] else [])) # split_lines br keep [] rest
      else if br c then (cur @ (if keep then [c] else [])) # split_lines br keep [] (d # rest)
      else split_lines br keep (cur @ [c]) (d # rest))"

definition splitlines :: "string \<Rightarrow> string list" where
  "splitlines s =
     split_lines (\<lambda>c. c \<in> {LF, CR, CHR 0x0B, CHR 0x0C, CHR 0x1C, CHR 0x1D, CHR 0x1E})
       False [] s"

definition splitlines_no_ff :: "string \<Rightarrow> string list" where
  "splitlines_no_ff s = split_lines (\<lambda>c. c \<in> {LF, CR}) True [] s"

definition is_space :: "char \<Rightarrow> bool" where
  "is_space c = (c \<in> {CHR '' '', CHR 0x09, LF, CHR 0x0B, CHR 0x0C, CR,
                       CHR 0x1C, CHR 0x1D, CHR 0x1E, CHR 0x1F})"

definition strip :: "string \<Rightarrow> string" where
  "strip s = rev (dropWhile is_space (rev (dropWhile is_space s)))"

definition is_blank :: "char \<Rightarrow> bool" where
  "is_blank c = (c = CHR '' '' \<or> c = CHR 0x09)"

fun split_nl :: "string \<Rightarrow> string \<Rightarrow> string list" where
  "split_nl cur [] = [cur]"
| "split_nl cur (c # rest) = (if c = LF then cur # split_nl [] rest else split_nl (cur @ [c]) rest)"

fun join_nl :: "string list \<Rightarrow> string" where
  "join_nl [] = []"
| "join_nl [l] = l"
| "join_nl (l # m # ls) = l @ [LF] @ join_nl (m # ls)"

fun common_prefix :: "string \<Rightarrow> string \<Rightarrow> string" where
  "common_prefix (x # xs) (y # ys) = (if x = y then x # common_prefix xs ys else [])"
| "common_prefix _ _ = []"

definition remove_margin :: "string \<Rightarrow> string \<Rightarrow> string" where
  "remove_margin margin l =
     (if take (length margin) l = margin then drop (length margin) l else l)"

definition dedent :: "string \<Rightarrow> string" where
  "dedent text =
     (let ls = map (\<lambda>l. if l \<noteq> [] \<and> (\<forall>c \<in> set l. is_blank c) then [] else l)
                   (split_nl [] text);
          indents = map (takeWhile is_blank) (filter (\<lambda>l. dropWhile is_blank l \<noteq> []) ls);
          margin = (case indents of [] \<Rightarrow> [] | i # rest \<Rightarrow> fold common_prefix rest i)
      in if margin \<noteq> [] then join_nl (map (remove_margin margin) ls) else join_nl ls)"


definition py_nth :: "'a list \<Rightarrow> int \<Rightarrow> error + 'a" where
  "py_nth xs i =
     (if 0 \<le> i \<and> i < int (length xs) then Inr (xs ! nat i)
      else if i < 0 \<and> - int (length xs) \<le> i then Inr (xs ! nat (int (length xs) + i))
      else Inl IndexError)"

definition get_source_segment :: "string \<Rightarrow> node \<Rightarrow> error + string option" where
  "get_source_segment source n =
     (case pos n of
        None \<Rightarrow> Inr None
      | Some ps \<Rightarrow>
          (case (end_lineno ps, end_col_offset ps) of
             (Some el, Some ec) \<Rightarrow>
               (let lines = splitlines_no_ff source in
                if el = lineno ps then
                  (case py_nth lines (int (lineno ps) - 1) of
                     Inl e \<Rightarrow> Inl e
                   | Inr line \<Rightarrow> Inr (Some (drop (col_offset ps) (take ec line))))
                else
                  (case py_nth lines (int (lineno ps) - 1) of
                     Inl e \<Rightarrow> Inl e
                   | Inr first_line \<Rightarrow>
                       (case py_nth lines (int el - 1) of
                          Inl e \<Rightarrow> Inl e
                        | Inr last_line \<Rightarrow>
                            Inr (Some (concat
                              ([drop (col_offset ps) first_line]
                               @ drop (lineno ps)
                                   (if el = 0 then butlast lines else take (el - 1) lines)
                               @ [take ec last_line]))))))
           | _ \<Rightarrow> Inr None))"

section \<open>More of the scanner\<close>

text \<open>
  \<^verbatim>\<open>get_src_index\<close>, \<^verbatim>\<open>find_identifier_end\<close>, \<^verbatim>\<open>find_nth_attribute_period\<close> and
  \<^verbatim>\<open>find_unbracketed_comma\<close>. The loops over the scanner's pairs carry their local
  variables as \<open>closing_loop\<close> does; \<^verbatim>\<open>code[at - 1:at]\<close> is empty at position 0.
\<close>

definition get_src_index :: "string \<Rightarrow> nat \<Rightarrow> nat \<Rightarrow> nat" where
  "get_src_index src line col =
     (let lines = splitlines src;
          above = (if line = 0 then butlast lines else take (line - 1) lines)
      in sum_list (map length above) + length above + col)"

definition is_identifier_char :: "char \<Rightarrow> bool" where
  "is_identifier_char ch =
     (ch \<in> set ''abcdefghijklmnopqrstuvwxyzABCDEFGHIJKLMNOPQRSTUVWXYZ''
      \<or> ch \<in> set ''0123456789'' \<or> ch = CHR ''_'')"

function identifier_loop :: "string \<Rightarrow> nat \<Rightarrow> nat" where
  "identifier_loop code at =
     (if at < length code then
        (if \<not> is_identifier_char (code ! at) then at else identifier_loop code (at + 1))
      else at)"
  by pat_completeness auto
termination
  by (relation "measure (\<lambda>(code, at). length code - at)") auto

declare identifier_loop.simps [simp del]

definition find_identifier_end :: "string \<Rightarrow> nat \<Rightarrow> nat" where
  "find_identifier_end code start_index = identifier_loop code (start_index + 1) - 1"

fun period_loop :: "string \<Rightarrow> int \<Rightarrow> nat option \<Rightarrow> (nat \<times> char) list \<Rightarrow> int \<times> nat option" where
  "period_loop code n at [] = (n, at)"
| "period_loop code n at ((j, char) # rest) =
     (if char = CHR ''.'' then
        (if (0 < j \<and> code ! (j - 1) = CHR ''.'') \<or> (j + 1 < length code \<and> code ! (j + 1) = CHR ''.'')
         then period_loop code n (Some j) rest
         else if n - 1 < 0 then (n - 1, Some j)
         else period_loop code (n - 1) (Some j) rest)
      else period_loop code n (Some j) rest)"

definition find_nth_attribute_period :: "string \<Rightarrow> nat \<Rightarrow> int \<Rightarrow> error + nat option" where
  "find_nth_attribute_period code start_index n =
     (case period_loop code n None (unquoted_enumerate code start_index) of
        (n', at) \<Rightarrow>
          if n' < 0 then (case at of None \<Rightarrow> Inl UnboundLocalError | Some k \<Rightarrow> Inr (Some k))
          else Inr None)"

fun comma_loop :: "string \<Rightarrow> (nat \<times> char) list \<Rightarrow> nat option" where
  "comma_loop seeking [] = None"
| "comma_loop seeking ((at, char) # rest) =
     (if char = CHR ''('' then comma_loop (seeking @ '')'') rest
      else if char = CHR ''['' then comma_loop (seeking @ '']'') rest
      else if char = CHR ''{'' then comma_loop (seeking @ ''}'') rest
      else if 0 < length seeking \<and> char = last seeking then comma_loop (butlast seeking) rest
      else if char \<in> {CHR '')'', CHR '']'', CHR ''}''} then None
      else if char = CHR '','' \<and> length seeking = 0 then Some at
      else comma_loop seeking rest)"

definition find_unbracketed_comma :: "string \<Rightarrow> nat \<Rightarrow> nat option" where
  "find_unbracketed_comma code start_index = comma_loop [] (unquoted_enumerate code start_index)"



section \<open>Expression-source extractor\<close>

text \<open>
  \<^verbatim>\<open>get_expr_src\<close> and \<^verbatim>\<open>get_ref_src\<close>, each with its two paths: the exact span when the
  \<^verbatim>\<open>ast\<close> module has \<^verbatim>\<open>get_source_segment\<close>, the scanner otherwise. Operations on a
  \<^verbatim>\<open>None\<close> that Python rejects (\<^verbatim>\<open>dedent(None)\<close>, \<^verbatim>\<open>min(None, i)\<close>, \<^verbatim>\<open>None + 1\<close>) are
  \<open>TypeError\<close>; \<^verbatim>\<open>str.index\<close> raises \<open>ValueError\<close> when the character is not found. In
  \<open>get_ref_src\<close> the call \<^verbatim>\<open>find_closing_item(src, sub_start - 1, "[]")\<close> scans from
  \<^verbatim>\<open>(sub_start - 1) + 1\<close>, which is \<open>closing_scan src sub_start\<close>.
\<close>

definition str_index :: "string \<Rightarrow> char \<Rightarrow> nat \<Rightarrow> error + nat" where
  "str_index src c start =
     (case filter (\<lambda>j. src ! j = c) [start..<length src] of
        [] \<Rightarrow> Inl ValueError
      | j # _ \<Rightarrow> Inr j)"

definition node_index :: "string \<Rightarrow> node \<Rightarrow> error + nat" where
  "node_index src n =
     (case pos n of
        None \<Rightarrow> Inl AttributeError
      | Some ps \<Rightarrow> Inr (get_src_index src (lineno ps) (col_offset ps)))"

definition first_arg :: "node \<Rightarrow> error + node" where
  "first_arg call_node =
     (case field call_node ''args'' of Some a # _ \<Rightarrow> Inr a | _ \<Rightarrow> Inl IndexError)"

definition get_expr_src :: "host \<Rightarrow> string \<Rightarrow> node \<Rightarrow> error + string" where
  "get_expr_src h src call_node =
     (case first_arg call_node of
        Inl e \<Rightarrow> Inl e
      | Inr arg_expr \<Rightarrow>
          if has_get_source_segment h then
            (case get_source_segment src arg_expr of
               Inl e \<Rightarrow> Inl e
             | Inr None \<Rightarrow> Inl TypeError
             | Inr (Some seg) \<Rightarrow> Inr (strip (dedent seg)))
          else
            (case node_index src call_node of
               Inl e \<Rightarrow> Inl e
             | Inr start \<Rightarrow>
                 (case str_index src (CHR ''('') start of
                    Inl e \<Rightarrow> Inl e
                  | Inr open_paren \<Rightarrow>
                      (case find_closing_item src open_paren ''()'' of
                         Inl e \<Rightarrow> Inl e
                       | Inr end \<Rightarrow>
                           (case find_unbracketed_comma src (open_paren + 1) of
                              None \<Rightarrow>
                                (case end of
                                   None \<Rightarrow> Inr (strip (dedent (drop (open_paren + 1) src)))
                                 | Some e \<Rightarrow>
                                     Inr (strip (dedent (drop (open_paren + 1) (take e src)))))
                            | Some first_comma \<Rightarrow>
                                (case end of
                                   None \<Rightarrow> Inl TypeError
                                 | Some e \<Rightarrow>
                                     Inr (strip (dedent (drop (open_paren + 1)
                                                          (take (min e first_comma) src))))))))))"

definition count_attributes :: "node \<Rightarrow> int" where
  "count_attributes n =
     int (length (filter (\<lambda>r. kind (snd r) = ''Attribute'') (ast_walk [([], n)])))"

definition subscript_inner :: "host \<Rightarrow> node \<Rightarrow> error + node" where
  "subscript_inner h n =
     (case attr n ''slice'' of
        Inl e \<Rightarrow> Inl e
      | Inr inner \<Rightarrow>
          if kind inner = ''Slice'' then Inr inner
          else if has_Index h \<and> kind inner = ''Index'' then attr inner ''value''
          else if has_ExtSlice h \<and> kind inner = ''ExtSlice'' then
            (case field inner ''dims'' of Some d # _ \<Rightarrow> Inr d | _ \<Rightarrow> Inl IndexError)
          else Inl TypeError)"

definition get_ref_src :: "host \<Rightarrow> string \<Rightarrow> node \<Rightarrow> error + string option" where
  "get_ref_src h src n =
     (if has_get_source_segment h then get_source_segment src n
      else
        (case node_index src n of
           Inl e \<Rightarrow> Inl e
         | Inr start \<Rightarrow>
             if kind n = ''Attribute'' then
               (case find_nth_attribute_period src start (count_attributes n - 1) of
                  Inl e \<Rightarrow> Inl e
                | Inr None \<Rightarrow> Inl TypeError
                | Inr (Some dot) \<Rightarrow>
                    Inr (Some (drop start (take (find_identifier_end src (dot + 1) + 1) src))))
             else if kind n = ''Name'' then
               Inr (Some (drop start (take (find_identifier_end src start + 1) src)))
             else if kind n = ''Subscript'' then
               (case subscript_inner h n of
                  Inl e \<Rightarrow> Inl e
                | Inr inner \<Rightarrow>
                    (case node_index src inner of
                       Inl e \<Rightarrow> Inl e
                     | Inr sub_start \<Rightarrow>
                         (case closing_scan src sub_start ''[]'' of
                            Inl e \<Rightarrow> Inl e
                          | Inr None \<Rightarrow> Inl TypeError
                          | Inr (Some e) \<Rightarrow> Inr (Some (drop start (take (e + 1) src))))))
             else Inl UnboundLocalError))"


section \<open>Context builder\<close>

text \<open>
  \<^verbatim>\<open>get_my_context(function_or_name)\<close>. The global state it reads and writes is the
  counter table \<^verbatim>\<open>COMPLETED_PER_LINE\<close> (function name, then file and line, to count), the
  \<^verbatim>\<open>DETAIL_LEVEL\<close> and what has been printed to \<^verbatim>\<open>sys.stderr\<close> (the warnings, as
  structured messages). The world around it gives the external calling frame (none when
  the stack holds no frame outside the module), the file system (\<open>None\<close> when opening or
  reading raises), the parser, and the copy that \<^verbatim>\<open>deepish_copy\<close> returns for a value.
  The result dictionary is a list of keys and entries; the \<^verbatim>\<open>relevant\<close> set is listed in
  insertion order. A source text key is optional because \<open>get_ref_src\<close> may return
  \<^verbatim>\<open>None\<close>. The function returns the new state and either an exception or the dictionary;
  the state is returned with an exception too, since what was written before the
  exception stays written. \<open>None\<close> is a build that never returns.

  The body is split at its comments: \<open>read_source\<close> is the reading of the caller's
  file, \<open>prev_this_line\<close> and \<open>record_call\<close> the two accesses to the counter
  (\<^verbatim>\<open>setdefault\<close> and \<^verbatim>\<open>+= 1\<close>), \<open>values_loop\<close> the loop over the references of the
  argument, \<open>build_context\<close> everything after the counter is advanced.
\<close>

datatype message =
    UnableToGetSource
  | CallIsOnLine nat "string option" string
  | UnableToFindCallNode string nat string

record state =
  COMPLETED_PER_LINE :: "string \<rightharpoonup> (string \<times> nat \<rightharpoonup> nat)"
  DETAIL_LEVEL :: int
  stderr :: "message list"

record 'v world =
  calling_frame :: "'v frame option"
  read_file :: "string \<Rightarrow> string option"
  ast_parse :: "string \<Rightarrow> error + node"
  deepish_copy :: "'v \<Rightarrow> 'v"
  python :: host

datatype 'v entry =
    File "string option"
  | Line nat
  | Src string
  | ExprNode ref
  | ExprSrc string
  | Values "(string option \<times> 'v) list"
  | Relevant "string option list"

type_synonym 'v context_dict = "(string \<times> 'v entry) list"

definition function_name :: "'v target \<Rightarrow> string" where
  "function_name function_or_name =
     (case function_or_name of FunctionObject obj nm \<Rightarrow> nm | NameString s \<Rightarrow> s)"

definition location_only :: "string option \<Rightarrow> nat \<Rightarrow> 'v context_dict" where
  "location_only filename l = [(''file'', File filename), (''line'', Line l)]"

definition read_source :: "'v world \<Rightarrow> 'v frame \<Rightarrow> state \<Rightarrow> state \<times> string option" where
  "read_source w frame st =
     (case f_filename frame of
        None \<Rightarrow> (st, None)
      | Some filename \<Rightarrow>
          (case read_file w filename of
             Some src \<Rightarrow> (st, Some src)
           | None \<Rightarrow>
               (if DETAIL_LEVEL st \<ge> 2
                then st\<lparr>stderr := stderr st @ [UnableToGetSource,
                         CallIsOnLine (f_lineno frame) (f_name frame) filename]\<rparr>
                else st,
                None)))"

definition prev_this_line :: "state \<Rightarrow> string \<Rightarrow> string \<times> nat \<Rightarrow> nat" where
  "prev_this_line st fn key =
     (case COMPLETED_PER_LINE st fn of
        None \<Rightarrow> 0
      | Some d \<Rightarrow> (case d key of None \<Rightarrow> 0 | Some c \<Rightarrow> c))"

definition record_call :: "state \<Rightarrow> string \<Rightarrow> string \<times> nat \<Rightarrow> state" where
  "record_call st fn key =
     st\<lparr>COMPLETED_PER_LINE :=
          (COMPLETED_PER_LINE st)
            (fn \<mapsto> (case COMPLETED_PER_LINE st fn of None \<Rightarrow> Map.empty | Some d \<Rightarrow> d)
                     (key \<mapsto> prev_this_line st fn key + 1))\<rparr>"

fun values_loop ::
  "'v world \<Rightarrow> 'v frame \<Rightarrow> parents \<Rightarrow> string \<Rightarrow> ref list
     \<Rightarrow> (string option \<times> 'v) list \<Rightarrow> string option list
     \<Rightarrow> (error + (string option \<times> 'v) list \<times> string option list) option" where
  "values_loop w frame ps src [] vals rel = Some (Inr (vals, rel))"
| "values_loop w frame ps src ((p, n) # rest) vals rel =
     (if kind n \<in> {''Attribute'', ''Subscript'', ''Name''} then
        (case get_ref_src (python w) src n of
           Inl e \<Rightarrow> Some (Inl e)
         | Inr key \<Rightarrow>
             if key \<notin> set (map fst vals) then
               (case evaluate_in_context n frame of
                  Inl e \<Rightarrow> Some (Inl e)
                | Inr v \<Rightarrow>
                    (case is_inside_call_func ps (p, n) of
                       None \<Rightarrow> None
                     | Some inside \<Rightarrow>
                         values_loop w frame ps src rest (vals @ [(key, deepish_copy w v)])
                           (if \<not> inside then List.insert key rel else rel)))
             else values_loop w frame ps src rest vals rel)
      else values_loop w frame ps src rest vals rel)"

definition build_context ::
  "'v world \<Rightarrow> 'v frame \<Rightarrow> parents \<Rightarrow> string \<Rightarrow> string \<Rightarrow> nat \<Rightarrow> ref
     \<Rightarrow> (error + 'v context_dict) option" where
  "build_context w frame ps src filename l match =
     (case first_arg (snd match) of
        Inl e \<Rightarrow> Some (Inl e)
      | Inr a \<Rightarrow>
          (let arg_expr = (fst match @ [(''args'', 0)], a);
               ps' = assign_parents arg_expr ps
           in case get_expr_src (python w) src (snd match) of
                Inl e \<Rightarrow> Some (Inl e)
              | Inr expr_src \<Rightarrow>
                  (case values_loop w frame ps' src (ast_walk [arg_expr]) [] [] of
                     None \<Rightarrow> None
                   | Some (Inl e) \<Rightarrow> Some (Inl e)
                   | Some (Inr (vals, rel)) \<Rightarrow>
                       Some (Inr [(''file'', File (Some filename)), (''line'', Line l),
                                  (''src'', Src src), (''expr'', ExprNode arg_expr),
                                  (''expr_src'', ExprSrc expr_src), (''values'', Values vals),
                                  (''relevant'', Relevant rel)]))))"

definition get_my_context ::
  "'v world \<Rightarrow> 'v target \<Rightarrow> state \<Rightarrow> (state \<times> (error + 'v context_dict)) option" where
  "get_my_context w function_or_name st =
     (case calling_frame w of
        None \<Rightarrow> Some (st, Inl AttributeError)
      | Some frame \<Rightarrow>
          (case read_source w frame st of
             (st1, None) \<Rightarrow> Some (st1, Inr (location_only (f_filename frame) (f_lineno frame)))
           | (st1, Some src) \<Rightarrow>
               (case ast_parse w src of
                  Inl e \<Rightarrow> Some (st1, Inl e)
                | Inr tree \<Rightarrow>
                    (let src_node = ([], tree);
                         ps = assign_parents src_node Map.empty;
                         filename = the (f_filename frame);
                         l = f_lineno frame
                     in case find_call_nodes_on_line (python w) ps src_node frame
                               function_or_name l of
                          None \<Rightarrow> None
                        | Some (Inl e) \<Rightarrow> Some (st1, Inl e)
                        | Some (Inr candidates) \<Rightarrow>
                            if length candidates = 0 then
                              Some (st1\<lparr>stderr := stderr st1 @
                                       [UnableToFindCallNode (function_name function_or_name)
                                          l filename]\<rparr>,
                                    Inr (location_only (f_filename frame) l))
                            else
                              (let key = (filename, l);
                                   fn = function_name function_or_name;
                                   match = candidates ! (prev_this_line st1 fn key
                                                          mod length candidates);
                                   st2 = record_call st1 fn key
                               in case build_context w frame ps src filename l match of
                                    None \<Rightarrow> None
                                  | Some r \<Rightarrow> Some (st2, r))))))"



section \<open>Scenarios\<close>

text \<open>
  Concrete worlds for the scenarios of the specification: a module \<^verbatim>\<open>m.py\<close> of one line,
  its syntax tree with the positions the parser gives, and a frame on line 1 in which
  names evaluate to numbered objects. The copy of an object below 10 (a function) is the
  object itself, as \<^verbatim>\<open>copy.deepcopy\<close> returns functions unchanged; the copy of another
  object is a new one.
\<close>

definition call_node :: "nat \<Rightarrow> nat \<Rightarrow> nat \<Rightarrow> node \<Rightarrow> node list \<Rightarrow> node" where
  "call_node line col end_col func args =
     Node ''Call'' (span line col end_col) []
       [(''func'', [Some func]), (''args'', map Some args), (''keywords'', [])]"

definition module_of :: "node \<Rightarrow> node" where
  "module_of e =
     Node ''Module'' None []
       [(''body'', [Some (Node ''Expr'' (pos e) [] [(''value'', [Some e])])]),
        (''type_ignores'', [])]"

definition world_of :: "string \<Rightarrow> node \<Rightarrow> (node \<Rightarrow> error + nat) \<Rightarrow> nat world" where
  "world_of src tree ev =
     \<lparr>calling_frame = Some \<lparr>f_filename = Some ''m.py'', f_lineno = 1, f_name = Some ''m'',
                              f_eval = ev\<rparr>,
      read_file = (\<lambda>f. if f = ''m.py'' then Some src else None),
      ast_parse = (\<lambda>s. if s = src then Inr tree else Inl SyntaxError),
      deepish_copy = (\<lambda>v. if v < 10 then v else v + 100),
      python = host39\<rparr>"

definition eval_names :: "(string \<times> nat) list \<Rightarrow> node \<Rightarrow> error + nat" where
  "eval_names env n =
     (if kind n = ''Name'' then
        (case map_of env (ident n) of None \<Rightarrow> Inl NameError | Some v \<Rightarrow> Inr v)
      else Inl TypeError)"

definition state0 :: state where
  "state0 = \<lparr>COMPLETED_PER_LINE = Map.empty, DETAIL_LEVEL = 0, stderr = []\<rparr>"

text \<open>Scenario C, \<^verbatim>\<open>expect(f(y), z)\<close>, and the variant \<^verbatim>\<open>expect(f(f), z)\<close>.\<close>

definition scenario_c_tree :: node where
  "scenario_c_tree =
     module_of (call_node 1 0 15 (name_node 1 0 ''expect'')
       [call_node 1 7 11 (name_node 1 7 ''f'') [name_node 1 9 ''y''], name_node 1 13 ''z''])"

definition scenario_c_eval :: "node \<Rightarrow> error + nat" where
  "scenario_c_eval = eval_names [(''expect'', 7), (''f'', 1), (''y'', 20), (''z'', 30)]"

definition scenario_c :: "nat world" where
  "scenario_c = world_of ''expect(f(y), z)'' scenario_c_tree scenario_c_eval"

definition scenario_ff_tree :: node where
  "scenario_ff_tree =
     module_of (call_node 1 0 15 (name_node 1 0 ''expect'')
       [call_node 1 7 11 (name_node 1 7 ''f'') [name_node 1 9 ''f''], name_node 1 13 ''z''])"

definition scenario_ff :: "nat world" where
  "scenario_ff =
     world_of ''expect(f(f), z)'' scenario_ff_tree
       (eval_names [(''expect'', 7), (''f'', 1), (''z'', 30)])"

section \<open>Degraded contexts\<close>

definition unreadable :: "nat world" where
  "unreadable = (scenario_c :: nat world)\<lparr>read_file := (\<lambda>f. None)\<rparr>"

definition the_frame :: "(node \<Rightarrow> error + nat) \<Rightarrow> nat frame" where
  "the_frame ev = \<lparr>f_filename = Some ''m.py'', f_lineno = 1, f_name = Some ''m'', f_eval = ev\<rparr>"

text \<open>
  Claim C8. With a calling frame, \<open>get_my_context\<close> returns (it neither raises nor runs
  on) in these cases. When the frame has no file name it returns the dictionary of
  \<^verbatim>\<open>file\<close> and \<^verbatim>\<open>line\<close> only and prints nothing. When the file cannot be read it returns
  that dictionary and prints the warning (two lines) exactly when the detail level is at
  least 2. When the source is read and parsed and the search over both passes returns no
  candidate, it prints one warning and returns that dictionary. The dictionary has the
  two keys \<^verbatim>\<open>file\<close> and \<^verbatim>\<open>line\<close> and no other.
\<close>

theorem get_my_context_degrades:
  fixes w :: "'v world"
  assumes "calling_frame w = Some frame"
  shows "(f_filename frame = None \<longrightarrow>
            get_my_context w t st = Some (st, Inr (location_only None (f_lineno frame))))
    \<and> (\<forall>fn. f_filename frame = Some fn \<and> read_file w fn = None \<longrightarrow>
            get_my_context w t st
              = Some (if DETAIL_LEVEL st \<ge> 2
                      then st\<lparr>stderr := stderr st @ [UnableToGetSource,
                               CallIsOnLine (f_lineno frame) (f_name frame) fn]\<rparr>
                      else st,
                      Inr (location_only (Some fn) (f_lineno frame))))
    \<and> (\<forall>fn src tree. f_filename frame = Some fn \<and> read_file w fn = Some src
            \<and> ast_parse w src = Inr tree
            \<and> find_call_nodes_on_line (python w) (assign_parents ([], tree) Map.empty)
                 ([], tree) frame t (f_lineno frame) = Some (Inr []) \<longrightarrow>
            get_my_context w t st
              = Some (st\<lparr>stderr := stderr st @
                           [UnableToFindCallNode (function_name t) (f_lineno frame) fn]\<rparr>,
                      Inr (location_only (Some fn) (f_lineno frame))))
    \<and> map fst (location_only (f_filename frame) (f_lineno frame) :: 'v context_dict)
          = [''file'', ''line'']"
proof (intro conjI allI impI)
  assume "f_filename frame = None"
  then show "get_my_context w t st = Some (st, Inr (location_only None (f_lineno frame)))"
    using assms by (simp add: get_my_context_def read_source_def)
next
  fix fn assume "f_filename frame = Some fn \<and> read_file w fn = None"
  then show "get_my_context w t st
              = Some (if DETAIL_LEVEL st \<ge> 2
                      then st\<lparr>stderr := stderr st @ [UnableToGetSource,
                               CallIsOnLine (f_lineno frame) (f_name frame) fn]\<rparr>
                      else st,
                      Inr (location_only (Some fn) (f_lineno frame)))"
    using assms by (simp add: get_my_context_def read_source_def)
next
  fix fn src tree
  assume "f_filename frame = Some fn \<and> read_file w fn = Some src
            \<and> ast_parse w src = Inr tree
            \<and> find_call_nodes_on_line (python w) (assign_parents ([], tree) Map.empty)
                 ([], tree) frame t (f_lineno frame) = Some (Inr [])"
  then show "get_my_context w t st
              = Some (st\<lparr>stderr := stderr st @
                           [UnableToFindCallNode (function_name t) (f_lineno frame) fn]\<rparr>,
                      Inr (location_only (Some fn) (f_lineno frame)))"
    using assms by (simp add: get_my_context_def read_source_def Let_def)
next
  show "map fst (location_only (f_filename frame) (f_lineno frame) :: 'v context_dict)
          = [''file'', ''line'']"
    by (simp add: location_only_def)
qed

lemma scenario_c_frame: "calling_frame scenario_c = Some (the_frame scenario_c_eval)"
  by (simp add: scenario_c_def world_of_def the_frame_def)

lemma unreadable_frame: "calling_frame unreadable = Some (the_frame scenario_c_eval)"
  by (simp add: unreadable_def scenario_c_def world_of_def the_frame_def)

lemma no_candidates:
  "find_call_nodes_on_line (python scenario_c)
     (assign_parents ([], scenario_c_tree) Map.empty) ([], scenario_c_tree)
     (the_frame scenario_c_eval) (FunctionObject 99 ''trace'') 1 = Some (Inr [])"
  by code_simp

theorem get_my_context_degrades_witness:
  "calling_frame unreadable = Some (the_frame scenario_c_eval)
   \<and> f_filename (the_frame scenario_c_eval) = Some ''m.py''
   \<and> read_file unreadable ''m.py'' = None
   \<and> get_my_context unreadable (FunctionObject 7 ''expect'') state0
       = Some (state0, Inr (location_only (Some ''m.py'') 1))
   \<and> get_my_context unreadable (FunctionObject 7 ''expect'') (state0\<lparr>DETAIL_LEVEL := 2\<rparr>)
       = Some (state0\<lparr>DETAIL_LEVEL := 2,
                       stderr := [UnableToGetSource, CallIsOnLine 1 (Some ''m'') ''m.py'']\<rparr>,
               Inr (location_only (Some ''m.py'') 1))
   \<and> get_my_context scenario_c (FunctionObject 99 ''trace'') state0
       = Some (state0\<lparr>stderr := [UnableToFindCallNode ''trace'' 1 ''m.py'']\<rparr>,
               Inr (location_only (Some ''m.py'') 1))"
proof -
  have f: "f_filename (the_frame scenario_c_eval) = Some ''m.py''"
    "f_lineno (the_frame scenario_c_eval) = 1" "f_name (the_frame scenario_c_eval) = Some ''m''"
    by (simp_all add: the_frame_def)
  have r: "read_file unreadable ''m.py'' = None"
    by (simp add: unreadable_def)
  have c: "read_file scenario_c ''m.py'' = Some ''expect(f(y), z)''"
    "ast_parse scenario_c ''expect(f(y), z)'' = Inr scenario_c_tree"
    by (simp_all add: scenario_c_def world_of_def)
  note u = get_my_context_degrades [OF unreadable_frame]
  from u [of "FunctionObject 7 ''expect''" state0] f r
  have a: "get_my_context unreadable (FunctionObject 7 ''expect'') state0
       = Some (state0, Inr (location_only (Some ''m.py'') 1))"
    by (simp add: state0_def)
  from u [of "FunctionObject 7 ''expect''" "state0\<lparr>DETAIL_LEVEL := 2\<rparr>"] f r
  have b: "get_my_context unreadable (FunctionObject 7 ''expect'') (state0\<lparr>DETAIL_LEVEL := 2\<rparr>)
       = Some (state0\<lparr>DETAIL_LEVEL := 2,
                       stderr := [UnableToGetSource, CallIsOnLine 1 (Some ''m'') ''m.py'']\<rparr>,
               Inr (location_only (Some ''m.py'') 1))"
    by (simp add: state0_def)
  from get_my_context_degrades [OF scenario_c_frame, of "FunctionObject 99 ''trace''" state0]
    f c no_candidates
  have d: "get_my_context scenario_c (FunctionObject 99 ''trace'') state0
       = Some (state0\<lparr>stderr := [UnableToFindCallNode ''trace'' 1 ''m.py'']\<rparr>,
               Inr (location_only (Some ''m.py'') 1))"
    by (simp add: state0_def function_name_def)
  from unreadable_frame f r a b d show ?thesis by blast
qed


section \<open>The per-line counter\<close>

text \<open>
  \<open>builds w t n st\<close> is the state after \<open>n\<close> successive context builds in the world \<open>w\<close>
  for the function \<open>t\<close>, starting in \<open>st\<close> (\<open>None\<close> when one of them never returns).
\<close>

fun builds :: "'v world \<Rightarrow> 'v target \<Rightarrow> nat \<Rightarrow> state \<Rightarrow> state option" where
  "builds w t 0 st = Some st"
| "builds w t (Suc n) st =
     (case get_my_context w t st of None \<Rightarrow> None | Some (st', r) \<Rightarrow> builds w t n st')"

lemma prev_this_line_record_call:
  "prev_this_line (record_call st fn key) fn' key'
     = (if fn' = fn \<and> key' = key then prev_this_line st fn key + 1
        else prev_this_line st fn' key')"
  by (auto simp: prev_this_line_def record_call_def split: option.splits)

lemma read_source_readable:
  "f_filename frame = Some filename \<Longrightarrow> read_file w filename = Some src
     \<Longrightarrow> read_source w frame st = (st, Some src)"
  by (simp add: read_source_def)

lemma read_source_counter:
  "read_source w frame st = (st1, r) \<Longrightarrow> COMPLETED_PER_LINE st1 = COMPLETED_PER_LINE st"
  by (auto simp: read_source_def split: option.splits if_splits)

lemma get_my_context_selects:
  assumes "calling_frame w = Some frame" and "f_filename frame = Some filename"
    and "read_file w filename = Some src" and "ast_parse w src = Inr tree"
    and "find_call_nodes_on_line (python w) (assign_parents ([], tree) Map.empty) ([], tree)
           frame t (f_lineno frame) = Some (Inr cands)"
    and "cands \<noteq> []"
  shows "get_my_context w t st
     = map_option (Pair (record_call st (function_name t) (filename, f_lineno frame)))
         (build_context w frame (assign_parents ([], tree) Map.empty) src filename
            (f_lineno frame)
            (cands ! (prev_this_line st (function_name t) (filename, f_lineno frame)
                       mod length cands)))"
  using assms
  by (simp add: get_my_context_def read_source_readable Let_def split: option.splits)

lemma get_my_context_counter:
  assumes "get_my_context w t st = Some (st', r)"
  shows "prev_this_line st' fn key = prev_this_line st fn key
     \<or> (prev_this_line st' fn key = prev_this_line st fn key + 1
          \<and> fn = function_name t
          \<and> (\<exists>frame filename. calling_frame w = Some frame
                 \<and> f_filename frame = Some filename \<and> key = (filename, f_lineno frame)))"
proof (cases "calling_frame w")
  case None
  with assms show ?thesis by (simp add: get_my_context_def)
next
  case (Some frame)
  obtain st1 osrc where rs: "read_source w frame st = (st1, osrc)"
    by (cases "read_source w frame st")
  have c: "prev_this_line st1 fn key = prev_this_line st fn key"
    using read_source_counter [OF rs] by (simp add: prev_this_line_def)
  show ?thesis
  proof (cases osrc)
    case None
    with assms Some rs c show ?thesis by (auto simp: get_my_context_def)
  next
    case src: (Some src)
    then obtain filename where fl: "f_filename frame = Some filename"
      using rs by (auto simp: read_source_def split: option.splits)
    show ?thesis
    proof (cases "ast_parse w src")
      case (Inl e)
      with assms Some rs src c show ?thesis by (auto simp: get_my_context_def)
    next
      case (Inr tree)
      show ?thesis
      proof (cases "find_call_nodes_on_line (python w) (assign_parents ([], tree) Map.empty)
                      ([], tree) frame t (f_lineno frame)")
        case None
        with assms Some rs src Inr show ?thesis by (simp add: get_my_context_def Let_def)
      next
        case found: (Some res)
        show ?thesis
        proof (cases res)
          case (Inl e)
          with assms Some rs src Inr found c show ?thesis
            by (auto simp: get_my_context_def Let_def)
        next
          case cs: (Inr cands)
          show ?thesis
          proof (cases "cands = []")
            case True
            with assms Some rs src Inr found cs
            have "st' = st1\<lparr>stderr := stderr st1 @
                [UnableToFindCallNode (function_name t) (f_lineno frame) filename]\<rparr>"
              using fl by (auto simp: get_my_context_def Let_def)
            then have "prev_this_line st' fn key = prev_this_line st1 fn key"
              by (simp add: prev_this_line_def)
            with c show ?thesis by simp
          next
            case False
            with assms Some rs src Inr found cs fl
            have "st' = record_call st1 (function_name t) (filename, f_lineno frame)"
              by (auto simp: get_my_context_def Let_def split: option.splits)
            then have "prev_this_line st' fn key
                = (if fn = function_name t \<and> key = (filename, f_lineno frame)
                   then prev_this_line st1 (function_name t) (filename, f_lineno frame) + 1
                   else prev_this_line st1 fn key)"
              by (simp add: prev_this_line_record_call)
            moreover have "prev_this_line st1 fn' key' = prev_this_line st fn' key'" for fn' key'
              using read_source_counter [OF rs] by (simp add: prev_this_line_def)
            ultimately show ?thesis using Some fl by auto
          qed
        qed
      qed
    qed
  qed
qed

lemma builds_counter:
  assumes "calling_frame w = Some frame" and "f_filename frame = Some filename"
    and "read_file w filename = Some src" and "ast_parse w src = Inr tree"
    and "find_call_nodes_on_line (python w) (assign_parents ([], tree) Map.empty) ([], tree)
           frame t (f_lineno frame) = Some (Inr cands)"
    and "cands \<noteq> []"
  shows "builds w t n st = Some stn \<Longrightarrow>
    prev_this_line stn (function_name t) (filename, f_lineno frame)
      = prev_this_line st (function_name t) (filename, f_lineno frame) + n"
proof (induction n arbitrary: st)
  case 0
  then show ?case by simp
next
  case (Suc n)
  from Suc.prems obtain st' r where g: "get_my_context w t st = Some (st', r)"
    and b: "builds w t n st' = Some stn"
    by (auto split: option.splits)
  from g get_my_context_selects [OF assms, of st]
  have "st' = record_call st (function_name t) (filename, f_lineno frame)" by auto
  then have "prev_this_line st' (function_name t) (filename, f_lineno frame)
      = prev_this_line st (function_name t) (filename, f_lineno frame) + 1"
    by (simp add: prev_this_line_record_call)
  with Suc.IH [OF b] show ?case by simp
qed


lemma build_context_expr:
  assumes "build_context w frame ps src filename l c = Some (Inr ctx)"
  shows "\<exists>a. first_arg (snd c) = Inr a
           \<and> map_of ctx ''expr'' = Some (ExprNode (fst c @ [(''args'', 0)], a))
           \<and> map fst ctx = [''file'', ''line'', ''src'', ''expr'', ''expr_src'', ''values'',
                              ''relevant'']"
  using assms
  by (auto simp: build_context_def Let_def split: sum.splits option.splits)

lemma get_my_context_location_only:
  assumes "get_my_context w t st = Some (st', Inr ctx)" and "map fst ctx = [''file'', ''line'']"
  shows "COMPLETED_PER_LINE st' = COMPLETED_PER_LINE st"
proof (cases "calling_frame w")
  case None
  with assms show ?thesis by (simp add: get_my_context_def)
next
  case (Some frame)
  obtain st1 osrc where rs: "read_source w frame st = (st1, osrc)"
    by (cases "read_source w frame st")
  note c = read_source_counter [OF rs]
  show ?thesis
  proof (cases osrc)
    case None
    with assms Some rs c show ?thesis by (auto simp: get_my_context_def)
  next
    case src: (Some src)
    show ?thesis
    proof (cases "ast_parse w src")
      case (Inl e)
      with assms Some rs src show ?thesis by (auto simp: get_my_context_def)
    next
      case (Inr tree)
      show ?thesis
      proof (cases "find_call_nodes_on_line (python w) (assign_parents ([], tree) Map.empty)
                      ([], tree) frame t (f_lineno frame)")
        case None
        with assms Some rs src Inr show ?thesis by (simp add: get_my_context_def Let_def)
      next
        case found: (Some res)
        show ?thesis
        proof (cases res)
          case (Inl e)
          with assms Some rs src Inr found show ?thesis
            by (auto simp: get_my_context_def Let_def)
        next
          case cs: (Inr cands)
          show ?thesis
          proof (cases "cands = []")
            case True
            with assms Some rs src Inr found cs c show ?thesis
              by (auto simp: get_my_context_def Let_def)
          next
            case False
            with assms(1) Some rs src Inr found cs
            obtain m where "build_context w frame (assign_parents ([], tree) Map.empty) src
                (the (f_filename frame)) (f_lineno frame) m = Some (Inr ctx)"
              by (auto simp: get_my_context_def Let_def split: option.splits)
            from build_context_expr [OF this] assms(2) show ?thesis by simp
          qed
        qed
      qed
    qed
  qed
qed

text \<open>
  Claim C1, amended. For a call site (frame, readable file, parsed source) at which the
  search finds the candidates \<open>cands\<close>, at least one: starting from a state in which the
  counter of the key (function name, file, line) is 0, after \<open>n\<close> builds the counter is \<open>n\<close>
  and the next build, the \<open>n\<close>-th counted from 0, is the build on candidate
  \<open>cands ! (n mod length cands)\<close>, whose first argument is the \<^verbatim>\<open>expr\<close> of the resulting
  context. A build that selects a candidate advances the counter of its key by exactly
  one, whatever happens afterwards in the build, and leaves every other counter as it
  was. No build of any world changes a counter otherwise: after any build that returns
  or raises, each counter is unchanged or is the counter of that build's key advanced by
  one; a build that returns the location-only context leaves the table as it was. With
  one candidate every build selects that same candidate.
\<close>

theorem round_robin_selection:
  fixes w :: "'v world"
  assumes "calling_frame w = Some frame" and "f_filename frame = Some filename"
    and "read_file w filename = Some src" and "ast_parse w src = Inr tree"
    and "find_call_nodes_on_line (python w) (assign_parents ([], tree) Map.empty) ([], tree)
           frame t (f_lineno frame) = Some (Inr cands)"
    and "cands \<noteq> []"
  shows
    "(\<forall>n stn.
        prev_this_line st (function_name t) (filename, f_lineno frame) = 0
        \<and> builds w t n st = Some stn \<longrightarrow>
          prev_this_line stn (function_name t) (filename, f_lineno frame) = n
          \<and> get_my_context w t stn
              = map_option (Pair (record_call stn (function_name t) (filename, f_lineno frame)))
                  (build_context w frame (assign_parents ([], tree) Map.empty) src filename
                     (f_lineno frame) (cands ! (n mod length cands))))
     \<and> (\<forall>c ctx.
          build_context w frame (assign_parents ([], tree) Map.empty) src filename
            (f_lineno frame) c = Some (Inr ctx) \<longrightarrow>
          (\<exists>a. first_arg (snd c) = Inr a
                \<and> map_of ctx ''expr'' = Some (ExprNode (fst c @ [(''args'', 0)], a))))
     \<and> (\<forall>fn key.
          prev_this_line (record_call st (function_name t) (filename, f_lineno frame)) fn key
            = (if fn = function_name t \<and> key = (filename, f_lineno frame)
               then prev_this_line st fn key + 1 else prev_this_line st fn key))
     \<and> (\<forall>(w' :: 'v world) t' s s' r fn key.
          get_my_context w' t' s = Some (s', r) \<longrightarrow>
            prev_this_line s' fn key = prev_this_line s fn key
            \<or> (prev_this_line s' fn key = prev_this_line s fn key + 1
                 \<and> fn = function_name t'
                 \<and> (\<exists>frame' filename'. calling_frame w' = Some frame'
                        \<and> f_filename frame' = Some filename'
                        \<and> key = (filename', f_lineno frame'))))
     \<and> (\<forall>(w' :: 'v world) t' s s' ctx.
          get_my_context w' t' s = Some (s', Inr ctx) \<and> map fst ctx = [''file'', ''line'']
            \<longrightarrow> COMPLETED_PER_LINE s' = COMPLETED_PER_LINE s)
     \<and> (length cands = 1 \<longrightarrow> (\<forall>n. cands ! (n mod length cands) = cands ! 0))"
proof (intro conjI allI impI)
  fix n stn
  assume a: "prev_this_line st (function_name t) (filename, f_lineno frame) = 0
        \<and> builds w t n st = Some stn"
  with builds_counter [OF assms, of n st stn]
  have n: "prev_this_line stn (function_name t) (filename, f_lineno frame) = n" by simp
  then show "prev_this_line stn (function_name t) (filename, f_lineno frame) = n" .
  from get_my_context_selects [OF assms, of stn] n
  show "get_my_context w t stn
      = map_option (Pair (record_call stn (function_name t) (filename, f_lineno frame)))
          (build_context w frame (assign_parents ([], tree) Map.empty) src filename
             (f_lineno frame) (cands ! (n mod length cands)))"
    by simp
next
  fix c ctx
  assume "build_context w frame (assign_parents ([], tree) Map.empty) src filename
            (f_lineno frame) c = Some (Inr ctx)"
  from build_context_expr [OF this]
  show "\<exists>a. first_arg (snd c) = Inr a
                \<and> map_of ctx ''expr'' = Some (ExprNode (fst c @ [(''args'', 0)], a))"
    by blast
next
  fix fn key
  show "prev_this_line (record_call st (function_name t) (filename, f_lineno frame)) fn key
            = (if fn = function_name t \<and> key = (filename, f_lineno frame)
               then prev_this_line st fn key + 1 else prev_this_line st fn key)"
    by (simp add: prev_this_line_record_call)
next
  fix w' :: "'v world" and t' s s' r fn key
  assume "get_my_context w' t' s = Some (s', r)"
  then show "prev_this_line s' fn key = prev_this_line s fn key
            \<or> (prev_this_line s' fn key = prev_this_line s fn key + 1
                 \<and> fn = function_name t'
                 \<and> (\<exists>frame' filename'. calling_frame w' = Some frame'
                        \<and> f_filename frame' = Some filename'
                        \<and> key = (filename', f_lineno frame')))"
    by (rule get_my_context_counter)
next
  fix w' :: "'v world" and t' s s' ctx
  assume "get_my_context w' t' s = Some (s', Inr ctx) \<and> map fst ctx = [''file'', ''line'']"
  then have a: "get_my_context w' t' s = Some (s', Inr ctx)"
    and b: "map fst ctx = [''file'', ''line'']" by simp_all
  from get_my_context_location_only [OF a b]
  show "COMPLETED_PER_LINE s' = COMPLETED_PER_LINE s" .
next
  fix n assume "length cands = 1"
  then show "cands ! (n mod length cands) = cands ! 0" by simp
qed


text \<open>Scenario D, \<^verbatim>\<open>expect(a,1) and expect(b,2)\<close>: two candidates on one line.\<close>

definition call_a :: node where
  "call_a = call_node 1 0 11 (name_node 1 0 ''expect'') [name_node 1 7 ''a'', const_node 1 9 ''1'']"

definition call_b :: node where
  "call_b = call_node 1 16 27 (name_node 1 16 ''expect'') [name_node 1 23 ''b'', const_node 1 25 ''2'']"

definition scenario_d_tree :: node where
  "scenario_d_tree =
     module_of (Node ''BoolOp'' (span 1 0 27) [] [(''values'', [Some call_a, Some call_b])])"

definition scenario_d_eval :: "node \<Rightarrow> error + nat" where
  "scenario_d_eval = eval_names [(''expect'', 7), (''a'', 20), (''b'', 30)]"

definition scenario_d :: "nat world" where
  "scenario_d = world_of ''expect(a,1) and expect(b,2)'' scenario_d_tree scenario_d_eval"

text \<open>
  \<^verbatim>\<open>expect([v for v in xs], 3)\<close>: the loop variable \<^verbatim>\<open>v\<close> of the comprehension is not a
  variable of the calling frame, so re-evaluating the reference \<^verbatim>\<open>v\<close> raises
  \<^verbatim>\<open>NameError\<close>.
\<close>

definition scenario_v_tree :: node where
  "scenario_v_tree =
     module_of (call_node 1 0 26 (name_node 1 0 ''expect'')
       [Node ''ListComp'' (span 1 7 22) []
          [(''elt'', [Some (name_node 1 8 ''v'')]),
           (''generators'', [Some (Node ''comprehension'' None []
              [(''target'', [Some (name_node 1 14 ''v'')]),
               (''iter'', [Some (name_node 1 19 ''xs'')]),
               (''ifs'', [])])])],
        const_node 1 24 ''3''])"

definition scenario_v :: "nat world" where
  "scenario_v =
     world_of ''expect([v for v in xs], 3)'' scenario_v_tree
       (eval_names [(''expect'', 7), (''xs'', 40)])"



definition outcome :: "(state \<times> 'a) option \<Rightarrow> 'a option" where
  "outcome r = map_option snd r"

definition counter_after :: "string \<Rightarrow> string \<times> nat \<Rightarrow> (state \<times> 'a) option \<Rightarrow> nat option" where
  "counter_after fn key r = map_option (\<lambda>x. prev_this_line (fst x) fn key) r"

definition expr_src_of :: "(error + 'v context_dict) option \<Rightarrow> 'v entry option" where
  "expr_src_of r = (case r of Some (Inr ctx) \<Rightarrow> map_of ctx ''expr_src'' | _ \<Rightarrow> None)"

text \<open>
  Claim C1 as stated fails in its last part: a build that is not successful can change
  the counter. The build for \<^verbatim>\<open>expect([v for v in xs], 3)\<close> raises \<^verbatim>\<open>NameError\<close>, and
  the counter of its key has gone from 0 to 1.
\<close>

theorem counter_advances_on_raising_build:
  "prev_this_line state0 ''expect'' (''m.py'', 1) = 0
   \<and> outcome (get_my_context scenario_v (FunctionObject 7 ''expect'') state0)
       = Some (Inl NameError)
   \<and> counter_after ''expect'' (''m.py'', 1)
        (get_my_context scenario_v (FunctionObject 7 ''expect'') state0) = Some 1"
  by code_simp

lemma scenario_d_site:
  "calling_frame scenario_d = Some (the_frame scenario_d_eval)"
  "f_filename (the_frame scenario_d_eval) = Some ''m.py''"
  "read_file scenario_d ''m.py'' = Some ''expect(a,1) and expect(b,2)''"
  "ast_parse scenario_d ''expect(a,1) and expect(b,2)'' = Inr scenario_d_tree"
  "f_lineno (the_frame scenario_d_eval) = 1"
  "python scenario_d = host39"
  by (simp_all add: scenario_d_def world_of_def the_frame_def)

definition ref_a :: ref where
  "ref_a = ([(''body'', 0), (''value'', 0), (''values'', 0)], call_a)"

definition ref_b :: ref where
  "ref_b = ([(''body'', 0), (''value'', 0), (''values'', 1)], call_b)"

lemma scenario_d_candidates:
  "find_call_nodes_on_line host39 (assign_parents ([], scenario_d_tree) Map.empty)
     ([], scenario_d_tree) (the_frame scenario_d_eval) (FunctionObject 7 ''expect'') 1
   = Some (Inr [ref_a, ref_b])"
  by code_simp

lemma scenario_d_build_a:
  "expr_src_of (build_context scenario_d (the_frame scenario_d_eval)
     (assign_parents ([], scenario_d_tree) Map.empty) ''expect(a,1) and expect(b,2)''
     ''m.py'' 1 ref_a) = Some (ExprSrc ''a'')"
  by code_simp

lemma scenario_d_build_b:
  "expr_src_of (build_context scenario_d (the_frame scenario_d_eval)
     (assign_parents ([], scenario_d_tree) Map.empty) ''expect(a,1) and expect(b,2)''
     ''m.py'' 1 ref_b) = Some (ExprSrc ''b'')"
  by code_simp


lemma expr_src_of_Some:
  "expr_src_of b = Some e \<Longrightarrow> \<exists>ctx. b = Some (Inr ctx)"
  by (auto simp: expr_src_of_def split: option.splits sum.splits)

theorem round_robin_selection_witness:
  "calling_frame scenario_d = Some (the_frame scenario_d_eval)
   \<and> find_call_nodes_on_line (python scenario_d)
        (assign_parents ([], scenario_d_tree) Map.empty) ([], scenario_d_tree)
        (the_frame scenario_d_eval) (FunctionObject 7 ''expect'')
        (f_lineno (the_frame scenario_d_eval)) = Some (Inr [ref_a, ref_b])
   \<and> expr_src_of (outcome (get_my_context scenario_d (FunctionObject 7 ''expect'') state0))
       = Some (ExprSrc ''a'')
   \<and> counter_after ''expect'' (''m.py'', 1)
        (get_my_context scenario_d (FunctionObject 7 ''expect'') state0) = Some 1
   \<and> expr_src_of (outcome (get_my_context scenario_d (FunctionObject 7 ''expect'')
        (record_call state0 ''expect'' (''m.py'', 1)))) = Some (ExprSrc ''b'')
   \<and> counter_after ''expect'' (''m.py'', 1)
        (get_my_context scenario_d (FunctionObject 7 ''expect'')
           (record_call state0 ''expect'' (''m.py'', 1))) = Some 2"
proof -
  let ?t = "FunctionObject 7 ''expect'' :: nat target"
  let ?key = "(''m.py'', 1 :: nat)"
  let ?ps = "assign_parents ([], scenario_d_tree) Map.empty"
  let ?src = "''expect(a,1) and expect(b,2)''"
  let ?st1 = "record_call state0 ''expect'' ?key"
  have cands: "find_call_nodes_on_line (python scenario_d) ?ps ([], scenario_d_tree)
        (the_frame scenario_d_eval) ?t (f_lineno (the_frame scenario_d_eval))
      = Some (Inr [ref_a, ref_b])"
    using scenario_d_candidates by (simp add: scenario_d_site)
  have ne: "[ref_a, ref_b] \<noteq> []" by simp
  note rr = round_robin_selection [OF scenario_d_site(1,2,3,4) cands ne, of state0]
  have p0: "prev_this_line state0 (function_name ?t) (''m.py'', f_lineno (the_frame scenario_d_eval)) = 0"
    by (simp add: prev_this_line_def state0_def)
  note c1 = conjunct1 [OF rr, rule_format]
  have b0: "builds scenario_d ?t 0 state0 = Some state0" by simp
  from c1 [OF conjI [OF p0 b0]]
  have g0: "get_my_context scenario_d ?t state0
      = map_option (Pair (record_call state0 (function_name ?t)
                            (''m.py'', f_lineno (the_frame scenario_d_eval))))
          (build_context scenario_d (the_frame scenario_d_eval) ?ps ?src ''m.py''
             (f_lineno (the_frame scenario_d_eval)) ([ref_a, ref_b] ! (0 mod length [ref_a, ref_b])))"
    by (rule conjunct2)
  from expr_src_of_Some [OF scenario_d_build_a] obtain ctx_a where
    ba: "build_context scenario_d (the_frame scenario_d_eval) ?ps ?src ''m.py'' 1 ref_a
          = Some (Inr ctx_a)" by blast
  from g0 ba have g0': "get_my_context scenario_d ?t state0 = Some (?st1, Inr ctx_a)"
    by (simp add: scenario_d_site function_name_def)
  then have b1: "builds scenario_d ?t 1 state0 = Some ?st1" by simp
  from c1 [OF conjI [OF p0 b1]]
  have g1: "get_my_context scenario_d ?t ?st1
      = map_option (Pair (record_call ?st1 (function_name ?t)
                            (''m.py'', f_lineno (the_frame scenario_d_eval))))
          (build_context scenario_d (the_frame scenario_d_eval) ?ps ?src ''m.py''
             (f_lineno (the_frame scenario_d_eval)) ([ref_a, ref_b] ! (1 mod length [ref_a, ref_b])))"
    by (rule conjunct2)
  from expr_src_of_Some [OF scenario_d_build_b] obtain ctx_b where
    bb: "build_context scenario_d (the_frame scenario_d_eval) ?ps ?src ''m.py'' 1 ref_b
          = Some (Inr ctx_b)" by blast
  from g1 bb have g1': "get_my_context scenario_d ?t ?st1
      = Some (record_call ?st1 ''expect'' ?key, Inr ctx_b)"
    by (simp add: scenario_d_site function_name_def)
  have ea: "expr_src_of (outcome (get_my_context scenario_d ?t state0)) = Some (ExprSrc ''a'')"
    using g0' ba scenario_d_build_a by (simp add: outcome_def)
  have eb: "expr_src_of (outcome (get_my_context scenario_d ?t ?st1)) = Some (ExprSrc ''b'')"
    using g1' bb scenario_d_build_b by (simp add: outcome_def)
  have ca: "counter_after ''expect'' ?key (get_my_context scenario_d ?t state0) = Some 1"
    using g0' by (simp add: counter_after_def prev_this_line_record_call)
      (simp add: prev_this_line_def state0_def)
  have cb: "counter_after ''expect'' ?key (get_my_context scenario_d ?t ?st1) = Some 2"
    using g1' by (simp add: counter_after_def prev_this_line_record_call)
      (simp add: prev_this_line_def state0_def)
  show ?thesis
    by (intro conjI) (rule scenario_d_site(1) cands ea ca eb cb)+
qed


text \<open>
  Claim C9. The key of the counter holds the name of the function, not the function
  object. For two function objects \<open>o1\<close> and \<open>o2\<close> of one \<^verbatim>\<open>__name__\<close> (any two, so also
  two different ones) and two call sites with the same file and line: when a build for
  \<open>o1\<close> has returned or raised after selecting, the counter of the shared key stands one
  higher, the build for \<open>o2\<close> that follows selects by that advanced counter, and leaves
  it two higher than at the start.
\<close>

lemma map_option_Pair: "map_option (Pair a) y = Some (s, r) \<Longrightarrow> s = a \<and> y = Some r"
  by (cases y) auto

theorem counter_keyed_by_function_name:
  fixes w1 w2 :: "'v world"
  assumes "calling_frame w1 = Some frame1" and "f_filename frame1 = Some filename"
    and "read_file w1 filename = Some src1" and "ast_parse w1 src1 = Inr tree1"
    and "find_call_nodes_on_line (python w1) (assign_parents ([], tree1) Map.empty)
           ([], tree1) frame1 (FunctionObject o1 nm) (f_lineno frame1) = Some (Inr cands1)"
    and "cands1 \<noteq> []"
    and "calling_frame w2 = Some frame2" and "f_filename frame2 = Some filename"
    and "read_file w2 filename = Some src2" and "ast_parse w2 src2 = Inr tree2"
    and "find_call_nodes_on_line (python w2) (assign_parents ([], tree2) Map.empty)
           ([], tree2) frame2 (FunctionObject o2 nm) (f_lineno frame2) = Some (Inr cands2)"
    and "cands2 \<noteq> []"
    and "f_lineno frame2 = f_lineno frame1"
    and "get_my_context w1 (FunctionObject o1 nm) st = Some (st1, r1)"
  shows "prev_this_line st1 nm (filename, f_lineno frame1)
           = prev_this_line st nm (filename, f_lineno frame1) + 1
    \<and> get_my_context w2 (FunctionObject o2 nm) st1
        = map_option (Pair (record_call st1 nm (filename, f_lineno frame1)))
            (build_context w2 frame2 (assign_parents ([], tree2) Map.empty) src2 filename
               (f_lineno frame1)
               (cands2 ! ((prev_this_line st nm (filename, f_lineno frame1) + 1)
                           mod length cands2)))
    \<and> prev_this_line (record_call st1 nm (filename, f_lineno frame1)) nm
          (filename, f_lineno frame1)
        = prev_this_line st nm (filename, f_lineno frame1) + 2"
proof -
  have fn: "function_name (FunctionObject o1 nm) = nm" "function_name (FunctionObject o2 nm) = nm"
    by (simp_all add: function_name_def)
  from get_my_context_selects [OF assms(1-6), of st] assms(14)
  have "map_option (Pair (record_call st nm (filename, f_lineno frame1)))
         (build_context w1 frame1 (assign_parents ([], tree1) Map.empty) src1 filename
            (f_lineno frame1)
            (cands1 ! (prev_this_line st nm (filename, f_lineno frame1) mod length cands1)))
       = Some (st1, r1)"
    by (simp add: fn)
  from map_option_Pair [OF this]
  have st1: "st1 = record_call st nm (filename, f_lineno frame1)" by simp
  then have p1: "prev_this_line st1 nm (filename, f_lineno frame1)
           = prev_this_line st nm (filename, f_lineno frame1) + 1"
    by (simp add: prev_this_line_record_call)
  from get_my_context_selects [OF assms(7-12), of st1]
  have g2: "get_my_context w2 (FunctionObject o2 nm) st1
        = map_option (Pair (record_call st1 nm (filename, f_lineno frame1)))
            (build_context w2 frame2 (assign_parents ([], tree2) Map.empty) src2 filename
               (f_lineno frame1)
               (cands2 ! ((prev_this_line st nm (filename, f_lineno frame1) + 1)
                           mod length cands2)))"
    by (simp add: fn assms(13) p1)
  have p2: "prev_this_line (record_call st1 nm (filename, f_lineno frame1)) nm
          (filename, f_lineno frame1)
        = prev_this_line st nm (filename, f_lineno frame1) + 2"
    by (simp add: prev_this_line_record_call p1)
  from p1 g2 p2 show ?thesis by (intro conjI)
qed

definition scenario_d_rebound :: "nat world" where
  "scenario_d_rebound =
     world_of ''expect(a,1) and expect(b,2)'' scenario_d_tree
       (eval_names [(''expect'', 8), (''a'', 20), (''b'', 30)])"

definition rebound_eval :: "node \<Rightarrow> error + nat" where
  "rebound_eval = eval_names [(''expect'', 8), (''a'', 20), (''b'', 30)]"

lemma scenario_d_rebound_site:
  "calling_frame scenario_d_rebound = Some (the_frame rebound_eval)"
  "f_filename (the_frame rebound_eval) = Some ''m.py''"
  "read_file scenario_d_rebound ''m.py'' = Some ''expect(a,1) and expect(b,2)''"
  "ast_parse scenario_d_rebound ''expect(a,1) and expect(b,2)'' = Inr scenario_d_tree"
  "f_lineno (the_frame rebound_eval) = 1"
  "python scenario_d_rebound = host39"
  by (simp_all add: scenario_d_rebound_def world_of_def the_frame_def rebound_eval_def)

lemma scenario_d_rebound_candidates:
  "find_call_nodes_on_line host39 (assign_parents ([], scenario_d_tree) Map.empty)
     ([], scenario_d_tree) (the_frame rebound_eval) (FunctionObject 8 ''expect'') 1
   = Some (Inr [ref_a, ref_b])"
  by code_simp

lemma scenario_d_rebound_build_b:
  "expr_src_of (build_context scenario_d_rebound (the_frame rebound_eval)
     (assign_parents ([], scenario_d_tree) Map.empty) ''expect(a,1) and expect(b,2)''
     ''m.py'' 1 ref_b) = Some (ExprSrc ''b'')"
  by code_simp

lemma scenario_d_first_build:
  "\<exists>ctx. get_my_context scenario_d (FunctionObject 7 ''expect'') state0
     = Some (record_call state0 ''expect'' (''m.py'', 1), Inr ctx)"
proof -
  have cands: "find_call_nodes_on_line (python scenario_d)
        (assign_parents ([], scenario_d_tree) Map.empty) ([], scenario_d_tree)
        (the_frame scenario_d_eval) (FunctionObject 7 ''expect'')
        (f_lineno (the_frame scenario_d_eval)) = Some (Inr [ref_a, ref_b])"
    using scenario_d_candidates by (simp add: scenario_d_site)
  have ne: "[ref_a, ref_b] \<noteq> []" by simp
  have p0: "prev_this_line state0 ''expect'' (''m.py'', 1) = 0"
    by (simp add: prev_this_line_def state0_def)
  from expr_src_of_Some [OF scenario_d_build_a] obtain ctx_a where
    ba: "build_context scenario_d (the_frame scenario_d_eval)
          (assign_parents ([], scenario_d_tree) Map.empty) ''expect(a,1) and expect(b,2)''
          ''m.py'' 1 ref_a = Some (Inr ctx_a)" by blast
  from get_my_context_selects [OF scenario_d_site(1,2,3,4) cands ne, of state0] p0 ba
  have "get_my_context scenario_d (FunctionObject 7 ''expect'') state0
     = Some (record_call state0 ''expect'' (''m.py'', 1), Inr ctx_a)"
    by (simp add: scenario_d_site function_name_def)
  then show ?thesis by blast
qed

theorem counter_keyed_by_function_name_witness:
  "(7 :: nat) \<noteq> 8
   \<and> counter_after ''expect'' (''m.py'', 1)
        (get_my_context scenario_d (FunctionObject 7 ''expect'') state0) = Some 1
   \<and> expr_src_of (outcome (get_my_context scenario_d_rebound (FunctionObject 8 ''expect'')
        (record_call state0 ''expect'' (''m.py'', 1)))) = Some (ExprSrc ''b'')
   \<and> counter_after ''expect'' (''m.py'', 1)
        (get_my_context scenario_d_rebound (FunctionObject 8 ''expect'')
           (record_call state0 ''expect'' (''m.py'', 1))) = Some 2"
proof -
  let ?st1 = "record_call state0 ''expect'' (''m.py'', 1 :: nat)"
  let ?ps = "assign_parents ([], scenario_d_tree) Map.empty"
  obtain ctx where g: "get_my_context scenario_d (FunctionObject 7 ''expect'') state0
     = Some (?st1, Inr ctx)"
    using scenario_d_first_build by blast
  have c1: "find_call_nodes_on_line (python scenario_d) ?ps ([], scenario_d_tree)
        (the_frame scenario_d_eval) (FunctionObject 7 ''expect'')
        (f_lineno (the_frame scenario_d_eval)) = Some (Inr [ref_a, ref_b])"
    using scenario_d_candidates by (simp add: scenario_d_site)
  have c2: "find_call_nodes_on_line (python scenario_d_rebound) ?ps ([], scenario_d_tree)
        (the_frame rebound_eval) (FunctionObject 8 ''expect'')
        (f_lineno (the_frame rebound_eval)) = Some (Inr [ref_a, ref_b])"
    using scenario_d_rebound_candidates by (simp add: scenario_d_rebound_site)
  have ne: "[ref_a, ref_b] \<noteq> []" by simp
  have l: "f_lineno (the_frame rebound_eval) = f_lineno (the_frame scenario_d_eval)"
    by (simp add: the_frame_def)
  have p0: "prev_this_line state0 ''expect'' (''m.py'', 1) = 0"
    by (simp add: prev_this_line_def state0_def)
  note k = counter_keyed_by_function_name [OF scenario_d_site(1,2,3,4) c1 ne
      scenario_d_rebound_site(1,2,3,4) c2 ne l g]
  from expr_src_of_Some [OF scenario_d_rebound_build_b] obtain ctx_b where
    bb: "build_context scenario_d_rebound (the_frame rebound_eval) ?ps
          ''expect(a,1) and expect(b,2)'' ''m.py'' 1 ref_b = Some (Inr ctx_b)" by blast
  from conjunct1 [OF conjunct2 [OF k]] p0 bb
  have g2: "get_my_context scenario_d_rebound (FunctionObject 8 ''expect'') ?st1
      = Some (record_call ?st1 ''expect'' (''m.py'', 1), Inr ctx_b)"
    by (simp add: scenario_d_site)
  have a: "counter_after ''expect'' (''m.py'', 1)
        (get_my_context scenario_d (FunctionObject 7 ''expect'') state0) = Some 1"
    using g p0 by (simp add: counter_after_def prev_this_line_record_call)
  have b: "expr_src_of (outcome (get_my_context scenario_d_rebound (FunctionObject 8 ''expect'')
        ?st1)) = Some (ExprSrc ''b'')"
    using g2 bb scenario_d_rebound_build_b by (simp add: outcome_def)
  have c: "counter_after ''expect'' (''m.py'', 1)
        (get_my_context scenario_d_rebound (FunctionObject 8 ''expect'') ?st1) = Some 2"
    using g2 p0 by (simp add: counter_after_def prev_this_line_record_call)
  have d: "(7 :: nat) \<noteq> 8" by simp
  show ?thesis by (intro conjI) (rule a b c d)+
qed



section \<open>Relevant references\<close>

text \<open>
  The references of the argument expression are its \<^verbatim>\<open>Attribute\<close>, \<^verbatim>\<open>Subscript\<close> and
  \<^verbatim>\<open>Name\<close> nodes. \<open>first_occurrence h src key refs\<close> is the first node of \<open>refs\<close> that is
  a reference with source text \<open>key\<close>.
\<close>

definition is_reference :: "node \<Rightarrow> bool" where
  "is_reference n = (kind n \<in> {''Attribute'', ''Subscript'', ''Name''})"

definition first_occurrence :: "host \<Rightarrow> string \<Rightarrow> string option \<Rightarrow> ref list \<Rightarrow> ref option" where
  "first_occurrence h src key refs =
     List.find (\<lambda>r. is_reference (snd r) \<and> get_ref_src h src (snd r) = Inr key) refs"

lemma first_occurrence_Cons:
  "first_occurrence h src key ((p, n) # rest)
     = (if is_reference n \<and> get_ref_src h src n = Inr key then Some (p, n)
        else first_occurrence h src key rest)"
  by (simp add: first_occurrence_def)

lemma values_loop_relevant:
  "values_loop w frame ps src refs vals rel = Some (Inr (vals', rel')) \<Longrightarrow>
     (\<forall>key. key \<in> set rel' \<longleftrightarrow>
        key \<in> set rel
        \<or> (key \<notin> fst ` set vals
            \<and> (\<exists>r. first_occurrence (python w) src key refs = Some r
                     \<and> is_inside_call_func ps r = Some False)))
     \<and> (\<forall>key. key \<in> fst ` set vals' \<longleftrightarrow>
          key \<in> fst ` set vals \<or> (\<exists>r. first_occurrence (python w) src key refs = Some r))"
proof (induction refs arbitrary: vals rel)
  case Nil
  then show ?case by (simp add: first_occurrence_def)
next
  case (Cons x rest)
  obtain p n where x: "x = (p, n)" by (cases x)
  show ?case
  proof (cases "is_reference n")
    case False
    with Cons.prems x have "values_loop w frame ps src rest vals rel = Some (Inr (vals', rel'))"
      by (simp add: is_reference_def)
    from Cons.IH [OF this] show ?thesis using False x by (simp add: first_occurrence_Cons)
  next
    case isr: True
    then have k: "kind n \<in> {''Attribute'', ''Subscript'', ''Name''}" by (simp add: is_reference_def)
    show ?thesis
    proof (cases "get_ref_src (python w) src n")
      case (Inl e)
      with Cons.prems x k show ?thesis by simp
    next
      case (Inr k0)
      show ?thesis
      proof (cases "k0 \<in> fst ` set vals")
        case True
        with Cons.prems x k Inr
        have "values_loop w frame ps src rest vals rel = Some (Inr (vals', rel'))" by simp
        from Cons.IH [OF this] show ?thesis
          using True x isr Inr by (auto simp: first_occurrence_Cons)
      next
        case new: False
        from Cons.prems x k Inr new obtain v where v: "evaluate_in_context n frame = Inr v"
          by (cases "evaluate_in_context n frame") auto
        from Cons.prems x k Inr new v obtain b where b: "is_inside_call_func ps (p, n) = Some b"
          by (cases "is_inside_call_func ps (p, n)") auto
        from Cons.prems x k Inr new v b
        have "values_loop w frame ps src rest (vals @ [(k0, deepish_copy w v)])
                (if \<not> b then List.insert k0 rel else rel) = Some (Inr (vals', rel'))"
          by simp
        from Cons.IH [OF this]
        have ih1: "\<And>key. key \<in> set rel' \<longleftrightarrow>
            key \<in> set (if \<not> b then List.insert k0 rel else rel)
            \<or> (key \<notin> fst ` set (vals @ [(k0, deepish_copy w v)])
                \<and> (\<exists>r. first_occurrence (python w) src key rest = Some r
                         \<and> is_inside_call_func ps r = Some False))"
          and ih2: "\<And>key. key \<in> fst ` set vals' \<longleftrightarrow>
            key \<in> fst ` set (vals @ [(k0, deepish_copy w v)])
            \<or> (\<exists>r. first_occurrence (python w) src key rest = Some r)"
          by blast+
        have fo: "\<And>key. first_occurrence (python w) src key (x # rest)
            = (if key = k0 then Some (p, n) else first_occurrence (python w) src key rest)"
          using x isr Inr by (auto simp: first_occurrence_Cons)
        show ?thesis
        proof (intro conjI allI)
          fix key
          show "key \<in> set rel' \<longleftrightarrow>
            key \<in> set rel
            \<or> (key \<notin> fst ` set vals
                \<and> (\<exists>r. first_occurrence (python w) src key (x # rest) = Some r
                         \<and> is_inside_call_func ps r = Some False))"
          proof (cases "key = k0")
            case True
            with ih1 [of key] fo [of key] new b show ?thesis by (cases b) auto
          next
            case False
            with ih1 [of key] fo [of key] show ?thesis by (cases b) auto
          qed
        next
          fix key
          show "key \<in> fst ` set vals' \<longleftrightarrow>
            key \<in> fst ` set vals
            \<or> (\<exists>r. first_occurrence (python w) src key (x # rest) = Some r)"
            using ih2 [of key] fo [of key] by auto
        qed
      qed
    qed
  qed
qed

lemma is_inside_call_func_total:
  assumes "wf_parents st"
  shows "\<exists>b. is_inside_call_func st (p, n) = Some b"
proof (induction "length p" arbitrary: p n rule: less_induct)
  case less
  show ?case
  proof (cases "getattr_parent st p")
    case None
    then have "is_inside_call_func st (p, n) = Some False"
      by (subst is_inside_call_func.simps) simp
    then show ?thesis by blast
  next
    case (Some r)
    obtain q m where r: "r = (q, m)" by (cases r)
    from Some r have "st p = Some (Some (q, m))"
      by (auto simp: getattr_parent_def split: option.splits)
    with assms obtain s where "p = q @ [s]" unfolding wf_parents_def by blast
    then have "length q < length p" by simp
    from less [OF this, of m] obtain b where b: "is_inside_call_func st (q, m) = Some b" by blast
    show ?thesis
      by (subst is_inside_call_func.simps) (use Some r b in \<open>auto split: list.splits option.splits\<close>)
  qed
qed


definition entry_of :: "string \<Rightarrow> (error + 'v context_dict) option \<Rightarrow> 'v entry option" where
  "entry_of k r = (case r of Some (Inr ctx) \<Rightarrow> map_of ctx k | _ \<Rightarrow> None)"

lemma build_context_relevant:
  assumes "build_context w frame ps src filename l match = Some (Inr ctx)"
  shows "\<exists>a vals rel.
      first_arg (snd match) = Inr a
      \<and> map_of ctx ''src'' = Some (Src src)
      \<and> map_of ctx ''expr'' = Some (ExprNode (fst match @ [(''args'', 0)], a))
      \<and> map_of ctx ''values'' = Some (Values vals)
      \<and> map_of ctx ''relevant'' = Some (Relevant rel)
      \<and> (\<forall>key. key \<in> set rel \<longleftrightarrow>
            (\<exists>r. first_occurrence (python w) src key
                    (ast_walk [(fst match @ [(''args'', 0)], a)]) = Some r
                 \<and> is_inside_call_func
                     (assign_parents (fst match @ [(''args'', 0)], a) ps) r = Some False))
      \<and> (\<forall>key. key \<in> fst ` set vals \<longleftrightarrow>
            (\<exists>r. first_occurrence (python w) src key
                    (ast_walk [(fst match @ [(''args'', 0)], a)]) = Some r))"
proof -
  from assms obtain a where a: "first_arg (snd match) = Inr a"
    by (cases "first_arg (snd match)") (auto simp: build_context_def)
  let ?arg = "(fst match @ [(''args'', 0)], a)"
  from assms a obtain es where es: "get_expr_src (python w) src (snd match) = Inr es"
    by (cases "get_expr_src (python w) src (snd match)") (auto simp: build_context_def Let_def)
  from assms a es obtain vals rel where
    vl: "values_loop w frame (assign_parents ?arg ps) src (ast_walk [?arg]) [] []
          = Some (Inr (vals, rel))"
    and ctx: "ctx = [(''file'', File (Some filename)), (''line'', Line l), (''src'', Src src),
                     (''expr'', ExprNode ?arg), (''expr_src'', ExprSrc es),
                     (''values'', Values vals), (''relevant'', Relevant rel)]"
    by (auto simp: build_context_def Let_def split: option.splits sum.splits)
  from values_loop_relevant [OF vl]
  have "(\<forall>key. key \<in> set rel \<longleftrightarrow>
            (\<exists>r. first_occurrence (python w) src key (ast_walk [?arg]) = Some r
                 \<and> is_inside_call_func (assign_parents ?arg ps) r = Some False))
      \<and> (\<forall>key. key \<in> fst ` set vals \<longleftrightarrow>
            (\<exists>r. first_occurrence (python w) src key (ast_walk [?arg]) = Some r))"
    by simp
  with a ctx show ?thesis by simp
qed

lemma get_my_context_full:
  assumes "get_my_context w t st = Some (st', Inr ctx)"
    and "map_of ctx ''expr'' = Some e"
  shows "\<exists>frame filename src tree m.
      calling_frame w = Some frame \<and> ast_parse w src = Inr tree
      \<and> build_context w frame (assign_parents ([], tree) Map.empty) src filename
           (f_lineno frame) m = Some (Inr ctx)"
proof (cases "calling_frame w")
  case None
  with assms show ?thesis by (simp add: get_my_context_def)
next
  case (Some frame)
  obtain st1 osrc where rs: "read_source w frame st = (st1, osrc)"
    by (cases "read_source w frame st")
  show ?thesis
  proof (cases osrc)
    case None
    with assms Some rs show ?thesis by (auto simp: get_my_context_def location_only_def)
  next
    case src: (Some src)
    show ?thesis
    proof (cases "ast_parse w src")
      case (Inl e)
      with assms Some rs src show ?thesis by (auto simp: get_my_context_def)
    next
      case (Inr tree)
      show ?thesis
      proof (cases "find_call_nodes_on_line (python w) (assign_parents ([], tree) Map.empty)
                      ([], tree) frame t (f_lineno frame)")
        case None
        with assms Some rs src Inr show ?thesis by (simp add: get_my_context_def Let_def)
      next
        case found: (Some res)
        show ?thesis
        proof (cases res)
          case (Inl e)
          with assms Some rs src Inr found show ?thesis
            by (auto simp: get_my_context_def Let_def)
        next
          case cs: (Inr cands)
          show ?thesis
          proof (cases "cands = []")
            case True
            with assms Some rs src Inr found cs show ?thesis
              by (auto simp: get_my_context_def Let_def location_only_def)
          next
            case False
            with assms(1) Some rs src Inr found cs
            obtain m where "build_context w frame (assign_parents ([], tree) Map.empty) src
                (the (f_filename frame)) (f_lineno frame) m = Some (Inr ctx)"
              by (auto simp: get_my_context_def Let_def split: option.splits)
            with Some Inr show ?thesis by blast
          qed
        qed
      qed
    qed
  qed
qed


text \<open>
  Claim C2 as stated fails: in \<^verbatim>\<open>expect(f(f), z)\<close> the reference \<^verbatim>\<open>f\<close> occurs as the
  argument of the nested call, outside any callee position, and still is not in the
  relevant set: the walk meets the callee \<^verbatim>\<open>f\<close> first, and the second occurrence is
  skipped because its text is already a key of the values.
\<close>

definition scenario_ff_arg :: ref where
  "scenario_ff_arg =
     ([(''body'', 0), (''value'', 0), (''args'', 0)],
      call_node 1 7 11 (name_node 1 7 ''f'') [name_node 1 9 ''f''])"

theorem relevant_misses_later_occurrence:
  "entry_of ''expr'' (outcome (get_my_context scenario_ff (FunctionObject 7 ''expect'') state0))
     = Some (ExprNode scenario_ff_arg)
   \<and> entry_of ''values'' (outcome (get_my_context scenario_ff (FunctionObject 7 ''expect'') state0))
     = Some (Values [(Some ''f'', 1)])
   \<and> entry_of ''relevant'' (outcome (get_my_context scenario_ff (FunctionObject 7 ''expect'') state0))
     = Some (Relevant [])
   \<and> (fst scenario_ff_arg @ [(''args'', 0)], name_node 1 9 ''f'')
        \<in> set (ast_walk [scenario_ff_arg])
   \<and> get_ref_src host39 ''expect(f(f), z)'' (name_node 1 9 ''f'') = Inr (Some ''f'')
   \<and> is_inside_call_func
        (assign_parents scenario_ff_arg (assign_parents ([], scenario_ff_tree) Map.empty))
        (fst scenario_ff_arg @ [(''args'', 0)], name_node 1 9 ''f'') = Some False"
  by code_simp

definition scenario_c_call :: ref where
  "scenario_c_call =
     ([(''body'', 0), (''value'', 0)],
      call_node 1 0 15 (name_node 1 0 ''expect'')
        [call_node 1 7 11 (name_node 1 7 ''f'') [name_node 1 9 ''y''], name_node 1 13 ''z''])"

definition scenario_c_arg :: ref where
  "scenario_c_arg =
     ([(''body'', 0), (''value'', 0), (''args'', 0)],
      call_node 1 7 11 (name_node 1 7 ''f'') [name_node 1 9 ''y''])"

definition scenario_c_context :: "nat context_dict" where
  "scenario_c_context =
     [(''file'', File (Some ''m.py'')), (''line'', Line 1), (''src'', Src ''expect(f(y), z)''),
      (''expr'', ExprNode scenario_c_arg), (''expr_src'', ExprSrc ''f(y)''),
      (''values'', Values [(Some ''f'', 1), (Some ''y'', 120)]),
      (''relevant'', Relevant [Some ''y''])]"

lemma scenario_c_candidates:
  "find_call_nodes_on_line host39 (assign_parents ([], scenario_c_tree) Map.empty)
     ([], scenario_c_tree) (the_frame scenario_c_eval) (FunctionObject 7 ''expect'') 1
   = Some (Inr [scenario_c_call])"
  by code_simp

lemma scenario_c_build:
  "build_context scenario_c (the_frame scenario_c_eval)
     (assign_parents ([], scenario_c_tree) Map.empty) ''expect(f(y), z)'' ''m.py'' 1
     scenario_c_call = Some (Inr scenario_c_context)"
  by code_simp

lemma scenario_c_site:
  "calling_frame scenario_c = Some (the_frame scenario_c_eval)"
  "f_filename (the_frame scenario_c_eval) = Some ''m.py''"
  "read_file scenario_c ''m.py'' = Some ''expect(f(y), z)''"
  "ast_parse scenario_c ''expect(f(y), z)'' = Inr scenario_c_tree"
  "f_lineno (the_frame scenario_c_eval) = 1"
  "python scenario_c = host39"
  by (simp_all add: scenario_c_def world_of_def the_frame_def)

lemma scenario_c_result:
  "get_my_context scenario_c (FunctionObject 7 ''expect'') state0
     = Some (record_call state0 ''expect'' (''m.py'', 1), Inr scenario_c_context)"
proof -
  have cands: "find_call_nodes_on_line (python scenario_c)
        (assign_parents ([], scenario_c_tree) Map.empty) ([], scenario_c_tree)
        (the_frame scenario_c_eval) (FunctionObject 7 ''expect'')
        (f_lineno (the_frame scenario_c_eval)) = Some (Inr [scenario_c_call])"
    using scenario_c_candidates by (simp add: scenario_c_site)
  have ne: "[scenario_c_call] \<noteq> []" by simp
  from get_my_context_selects [OF scenario_c_site(1,2,3,4) cands ne, of state0] scenario_c_build
  show ?thesis by (simp add: scenario_c_site function_name_def)
qed

lemma scenario_c_y:
  "first_occurrence host39 ''expect(f(y), z)'' (Some ''y'') (ast_walk [scenario_c_arg])
     = Some (fst scenario_c_arg @ [(''args'', 0)], name_node 1 9 ''y'')
   \<and> first_occurrence host39 ''expect(f(y), z)'' (Some ''f'') (ast_walk [scenario_c_arg])
     = Some (fst scenario_c_arg @ [(''func'', 0)], name_node 1 7 ''f'')
   \<and> is_inside_call_func
        (assign_parents scenario_c_arg (assign_parents ([], scenario_c_tree) Map.empty))
        (fst scenario_c_arg @ [(''func'', 0)], name_node 1 7 ''f'') = Some True"
  by code_simp


text \<open>
  Claim C2, amended. In a full context built by \<open>get_my_context\<close>, a source text is in the
  relevant set exactly when the first reference with that text, in the breadth-first
  order of \<^verbatim>\<open>ast.walk\<close> over the argument expression, is not inside a callee position
  (\<open>is_inside_call_func\<close>, which returns for every node of the argument); the keys of the
  values are the texts of the references. In scenario C the values hold \<^verbatim>\<open>f\<close> (the
  function object \<open>1\<close>, which is its own copy) and \<^verbatim>\<open>y\<close> (the copy \<open>120\<close> of its value
  \<open>20\<close>), and the relevant set holds \<^verbatim>\<open>y\<close> and not \<^verbatim>\<open>f\<close>.
\<close>

definition relevant_of :: "'v context_dict \<Rightarrow> string option list" where
  "relevant_of ctx = (case map_of ctx ''relevant'' of Some (Relevant rel) \<Rightarrow> rel | _ \<Rightarrow> [])"

definition values_of :: "'v context_dict \<Rightarrow> (string option \<times> 'v) list" where
  "values_of ctx = (case map_of ctx ''values'' of Some (Values vals) \<Rightarrow> vals | _ \<Rightarrow> [])"

theorem relevant_by_first_occurrence:
  fixes w :: "'v world"
  assumes "get_my_context w t st = Some (st', Inr ctx)"
    and "map_of ctx ''expr'' = Some (ExprNode arg_expr)"
    and "map_of ctx ''src'' = Some (Src src)"
    and "ast_parse w src = Inr tree"
  shows "(\<forall>key. key \<in> set (relevant_of ctx) \<longleftrightarrow>
            (\<exists>r. first_occurrence (python w) src key (ast_walk [arg_expr]) = Some r
                 \<and> is_inside_call_func
                      (assign_parents arg_expr (assign_parents ([], tree) Map.empty)) r
                    = Some False))
    \<and> (\<forall>key. key \<in> fst ` set (values_of ctx) \<longleftrightarrow>
            (\<exists>r. first_occurrence (python w) src key (ast_walk [arg_expr]) = Some r))
    \<and> (\<forall>p n. \<exists>b. is_inside_call_func
                      (assign_parents arg_expr (assign_parents ([], tree) Map.empty)) (p, n)
                    = Some b)
    \<and> get_my_context scenario_c (FunctionObject 7 ''expect'') state0
        = Some (record_call state0 ''expect'' (''m.py'', 1), Inr scenario_c_context)
    \<and> values_of scenario_c_context = [(Some ''f'', 1), (Some ''y'', 120)]
    \<and> relevant_of scenario_c_context = [Some ''y'']"
proof (intro conjI)
  from get_my_context_full [OF assms(1,2)] obtain frame filename src' tree' m where
    tree': "ast_parse w src' = Inr tree'"
    and bc: "build_context w frame (assign_parents ([], tree') Map.empty) src' filename
           (f_lineno frame) m = Some (Inr ctx)"
    by blast
  from build_context_relevant [OF bc] obtain a vals rel where
    s: "map_of ctx ''src'' = Some (Src src')"
    and e: "map_of ctx ''expr'' = Some (ExprNode (fst m @ [(''args'', 0)], a))"
    and v: "map_of ctx ''values'' = Some (Values vals)"
    and r: "map_of ctx ''relevant'' = Some (Relevant rel)"
    and c1: "\<forall>key. key \<in> set rel \<longleftrightarrow>
            (\<exists>r. first_occurrence (python w) src' key
                    (ast_walk [(fst m @ [(''args'', 0)], a)]) = Some r
                 \<and> is_inside_call_func
                     (assign_parents (fst m @ [(''args'', 0)], a)
                        (assign_parents ([], tree') Map.empty)) r = Some False)"
    and c2: "\<forall>key. key \<in> fst ` set vals \<longleftrightarrow>
            (\<exists>r. first_occurrence (python w) src' key
                    (ast_walk [(fst m @ [(''args'', 0)], a)]) = Some r)"
    by blast
  from e assms(2) have ae: "(fst m @ [(''args'', 0)], a) = arg_expr" by simp
  from s assms(3) have se: "src' = src" by simp
  from tree' se assms(4) have te: "tree' = tree" by simp
  have rel: "relevant_of ctx = rel" using r by (simp add: relevant_of_def)
  have vals: "values_of ctx = vals" using v by (simp add: values_of_def)
  show "\<forall>key. key \<in> set (relevant_of ctx) \<longleftrightarrow>
            (\<exists>r. first_occurrence (python w) src key (ast_walk [arg_expr]) = Some r
                 \<and> is_inside_call_func
                      (assign_parents arg_expr (assign_parents ([], tree) Map.empty)) r
                    = Some False)"
    using c1 unfolding ae se te rel .
  show "\<forall>key. key \<in> fst ` set (values_of ctx) \<longleftrightarrow>
            (\<exists>r. first_occurrence (python w) src key (ast_walk [arg_expr]) = Some r)"
    using c2 unfolding ae se vals .
  have wf: "wf_parents (assign_parents arg_expr (assign_parents ([], tree) Map.empty))"
    by (intro assign_parents_wf wf_parents_empty)
  show "\<forall>p n. \<exists>b. is_inside_call_func
                      (assign_parents arg_expr (assign_parents ([], tree) Map.empty)) (p, n)
                    = Some b"
    using is_inside_call_func_total [OF wf] by blast
next
  show "get_my_context scenario_c (FunctionObject 7 ''expect'') state0
        = Some (record_call state0 ''expect'' (''m.py'', 1), Inr scenario_c_context)"
    by (rule scenario_c_result)
next
  show "values_of scenario_c_context = [(Some ''f'', 1), (Some ''y'', 120)]"
    by (simp add: scenario_c_context_def values_of_def)
next
  show "relevant_of scenario_c_context = [Some ''y'']"
    by (simp add: scenario_c_context_def relevant_of_def)
qed

theorem relevant_by_first_occurrence_witness:
  "get_my_context scenario_c (FunctionObject 7 ''expect'') state0
     = Some (record_call state0 ''expect'' (''m.py'', 1), Inr scenario_c_context)
   \<and> map_of scenario_c_context ''expr'' = Some (ExprNode scenario_c_arg)
   \<and> map_of scenario_c_context ''src'' = Some (Src ''expect(f(y), z)'')
   \<and> ast_parse scenario_c ''expect(f(y), z)'' = Inr scenario_c_tree
   \<and> relevant_of scenario_c_context = [Some ''y'']
   \<and> (\<exists>r. first_occurrence (python scenario_c) ''expect(f(y), z)'' (Some ''y'')
               (ast_walk [scenario_c_arg]) = Some r
          \<and> is_inside_call_func
               (assign_parents scenario_c_arg (assign_parents ([], scenario_c_tree) Map.empty)) r
             = Some False)
   \<and> \<not> (\<exists>r. first_occurrence (python scenario_c) ''expect(f(y), z)'' (Some ''f'')
               (ast_walk [scenario_c_arg]) = Some r
          \<and> is_inside_call_func
               (assign_parents scenario_c_arg (assign_parents ([], scenario_c_tree) Map.empty)) r
             = Some False)"
proof -
  have e: "map_of scenario_c_context ''expr'' = Some (ExprNode scenario_c_arg)"
    by (simp add: scenario_c_context_def)
  have sr: "map_of scenario_c_context ''src'' = Some (Src ''expect(f(y), z)'')"
    by (simp add: scenario_c_context_def)
  have rl: "relevant_of scenario_c_context = [Some ''y'']"
    by (simp add: scenario_c_context_def relevant_of_def)
  note c = conjunct1 [OF relevant_by_first_occurrence
      [OF scenario_c_result e sr scenario_c_site(4)], rule_format]
  have iny: "Some ''y'' \<in> set (relevant_of scenario_c_context)" by (simp add: rl)
  have inf: "Some ''f'' \<notin> set (relevant_of scenario_c_context)" by (simp add: rl)
  note y = iffD1 [OF c, OF iny]
  have f: "\<not> (\<exists>r. first_occurrence (python scenario_c) ''expect(f(y), z)'' (Some ''f'')
               (ast_walk [scenario_c_arg]) = Some r
          \<and> is_inside_call_func
               (assign_parents scenario_c_arg (assign_parents ([], scenario_c_tree) Map.empty)) r
             = Some False)"
    using inf iffD2 [OF c] by (rule contrapos_nn)
  show ?thesis by (intro conjI) (rule scenario_c_result e sr scenario_c_site(4) rl y f)+
qed


section \<open>Agreement of the two extraction paths\<close>


subsection \<open>Sources on which the paths differ\<close>







subsection \<open>Sources on which they agree\<close>

































subsection \<open>Two sources with agreeing paths\<close>










section \<open>Copying values\<close>

text \<open>
  \<^verbatim>\<open>deepish_copy(obj, memo=None)\<close>. Objects live in a heap, a list whose positions are
  the identities \<^verbatim>\<open>id(obj)\<close>; a new object is appended. The kinds of object are the four
  that the function tells apart with \<^verbatim>\<open>isinstance\<close>, the generator object that a
  generator expression makes (with the items it has yet to go through), and two kinds of
  other object: an \<open>Atom\<close> (an \<^verbatim>\<open>int\<close>, a \<^verbatim>\<open>str\<close>, \<^verbatim>\<open>None\<close>, a function) and a \<open>Module\<close>.
  A dictionary is the list of its key and value pairs, a set the list of its elements.

  \<^verbatim>\<open>copy.deepcopy\<close> and \<^verbatim>\<open>copy.copy\<close> are parameters: each takes the heap and an object
  and returns the new heap and the copy, or \<open>None\<close> when it raises an \<^verbatim>\<open>Exception\<close>, which
  is what the two \<^verbatim>\<open>except\<close> clauses catch. The body has no \<^verbatim>\<open>raise\<close> of its own. The
  recursion of the source is bounded by a fuel, the depth of nested calls that is left;
  \<open>None\<close> is a call that ran out of it. \<open>copy_items\<close> is the generator expression
  \<^verbatim>\<open>deepish_copy(item, memo) for item in obj\<close> consumed to its end, the memo and the heap
  passing from one item to the next; for a dictionary the items are key, value, key,
  value, in the order in which the comprehension evaluates them, and \<open>pair_up\<close> builds
  the pairs again. The result container is made empty, entered in the memo, and filled
  when its items are copied. In the \<^verbatim>\<open>tuple\<close> branch the result is the generator object
  of the expression \<^verbatim>\<open>(deepish_copy(item, memo) for item in obj)\<close>.
\<close>

type_synonym addr = nat

datatype pyobj =
    PyList "addr list"
  | PyTuple "addr list"
  | PyDict "(addr \<times> addr) list"
  | PySet "addr list"
  | Generator "addr list"
  | Atom
  | Module

type_synonym heap = "pyobj list"
type_synonym memo = "addr \<rightharpoonup> addr"

record copy_module =
  deepcopy :: "heap \<Rightarrow> addr \<Rightarrow> (heap \<times> addr) option"
  copy :: "heap \<Rightarrow> addr \<Rightarrow> (heap \<times> addr) option"

definition lookup :: "heap \<Rightarrow> addr \<Rightarrow> pyobj option" where
  "lookup hp a = (if a < length hp then Some (hp ! a) else None)"

fun pair_up :: "'a list \<Rightarrow> ('a \<times> 'a) list" where
  "pair_up (k # v # rest) = (k, v) # pair_up rest"
| "pair_up _ = []"

definition items_of :: "(addr \<times> addr) list \<Rightarrow> addr list" where
  "items_of pairs = concat (map (\<lambda>(k, v). [k, v]) pairs)"

fun deepish_copy ::
  "nat \<Rightarrow> copy_module \<Rightarrow> addr \<Rightarrow> heap \<times> memo \<Rightarrow> (addr \<times> heap \<times> memo) option"
and copy_items ::
  "nat \<Rightarrow> copy_module \<Rightarrow> addr list \<Rightarrow> heap \<times> memo \<Rightarrow> (addr list \<times> heap \<times> memo) option"
where
  "deepish_copy 0 cp obj (hp, memo) = None"
| "deepish_copy (Suc n) cp obj (hp, memo) =
     (case memo obj of
        Some r \<Rightarrow> Some (r, hp, memo)
      | None \<Rightarrow>
          (case deepcopy cp hp obj of
             Some (hp1, r) \<Rightarrow> Some (r, hp1, memo(obj \<mapsto> r))
           | None \<Rightarrow>
               (case lookup hp obj of
                  Some (PyList items) \<Rightarrow>
                    (case copy_items n cp items (hp @ [PyList []], memo(obj \<mapsto> length hp)) of
                       None \<Rightarrow> None
                     | Some (copies, hp2, memo2) \<Rightarrow>
                         Some (length hp, hp2[length hp := PyList copies], memo2))
                | Some (PyTuple items) \<Rightarrow>
                    Some (length hp, hp @ [Generator items], memo(obj \<mapsto> length hp))
                | Some (PyDict pairs) \<Rightarrow>
                    (case copy_items n cp (items_of pairs)
                            (hp @ [PyDict []], memo(obj \<mapsto> length hp)) of
                       None \<Rightarrow> None
                     | Some (copies, hp2, memo2) \<Rightarrow>
                         Some (length hp, hp2[length hp := PyDict (pair_up copies)], memo2))
                | Some (PySet items) \<Rightarrow>
                    (case copy_items n cp items (hp @ [PySet []], memo(obj \<mapsto> length hp)) of
                       None \<Rightarrow> None
                     | Some (copies, hp2, memo2) \<Rightarrow>
                         Some (length hp, hp2[length hp := PySet copies], memo2))
                | _ \<Rightarrow>
                    (case copy cp hp obj of
                       Some (hp1, r) \<Rightarrow> Some (r, hp1, memo(obj \<mapsto> r))
                     | None \<Rightarrow> Some (obj, hp, memo(obj \<mapsto> obj))))))"
| "copy_items n cp [] st = Some ([], st)"
| "copy_items n cp (item # rest) st =
     (case deepish_copy n cp item st of
        None \<Rightarrow> None
      | Some (c, st1) \<Rightarrow>
          (case copy_items n cp rest st1 of
             None \<Rightarrow> None
           | Some (cs, st2) \<Rightarrow> Some (c # cs, st2)))"

subsection \<open>The \<^verbatim>\<open>copy\<close> module\<close>

text \<open>
  The documented behaviour of \<^verbatim>\<open>copy.deepcopy\<close> and \<^verbatim>\<open>copy.copy\<close> on these objects.
  \<^verbatim>\<open>deepcopy\<close> keeps a memo of its own for one call: a list or a dictionary is made
  empty, entered in the memo and filled; a tuple whose items are their own copies is
  its own copy; an atom is its own copy; a module and a generator cannot be copied
  (\<^verbatim>\<open>TypeError\<close>), and neither can anything nested deeper than the recursion limit
  (\<^verbatim>\<open>RecursionError\<close>). \<^verbatim>\<open>copy.copy\<close> makes a new list, dictionary or set with the same
  items and returns a tuple or an atom itself.
\<close>

fun copy_deepcopy :: "nat \<Rightarrow> heap \<Rightarrow> memo \<Rightarrow> addr \<Rightarrow> (addr \<times> heap \<times> memo) option"
and copy_deepcopy_items :: "nat \<Rightarrow> heap \<Rightarrow> memo \<Rightarrow> addr list \<Rightarrow> (addr list \<times> heap \<times> memo) option"
where
  "copy_deepcopy 0 hp m x = None"
| "copy_deepcopy (Suc n) hp m x =
     (case m x of
        Some y \<Rightarrow> Some (y, hp, m)
      | None \<Rightarrow>
          (case lookup hp x of
             None \<Rightarrow> None
           | Some (PyList items) \<Rightarrow>
               (case copy_deepcopy_items n (hp @ [PyList []]) (m(x \<mapsto> length hp)) items of
                  None \<Rightarrow> None
                | Some (ys, hp2, m2) \<Rightarrow> Some (length hp, hp2[length hp := PyList ys], m2))
           | Some (PyTuple items) \<Rightarrow>
               (case copy_deepcopy_items n hp m items of
                  None \<Rightarrow> None
                | Some (ys, hp2, m2) \<Rightarrow>
                    (case m2 x of
                       Some y \<Rightarrow> Some (y, hp2, m2)
                     | None \<Rightarrow>
                         if ys = items then Some (x, hp2, m2)
                         else Some (length hp2, hp2 @ [PyTuple ys], m2(x \<mapsto> length hp2))))
           | Some (PyDict pairs) \<Rightarrow>
               (case copy_deepcopy_items n (hp @ [PyDict []]) (m(x \<mapsto> length hp)) (items_of pairs) of
                  None \<Rightarrow> None
                | Some (ys, hp2, m2) \<Rightarrow>
                    Some (length hp, hp2[length hp := PyDict (pair_up ys)], m2))
           | Some (PySet items) \<Rightarrow>
               (case copy_deepcopy_items n hp m items of
                  None \<Rightarrow> None
                | Some (ys, hp2, m2) \<Rightarrow>
                    Some (length hp2, hp2 @ [PySet ys], m2(x \<mapsto> length hp2)))
           | Some (Generator items) \<Rightarrow> None
           | Some Atom \<Rightarrow> Some (x, hp, m)
           | Some Module \<Rightarrow> None))"
| "copy_deepcopy_items n hp m [] = Some ([], hp, m)"
| "copy_deepcopy_items n hp m (x # xs) =
     (case copy_deepcopy n hp m x of
        None \<Rightarrow> None
      | Some (y, hp1, m1) \<Rightarrow>
          (case copy_deepcopy_items n hp1 m1 xs of
             None \<Rightarrow> None
           | Some (ys, hp2, m2) \<Rightarrow> Some (y # ys, hp2, m2)))"

definition python_deepcopy :: "nat \<Rightarrow> heap \<Rightarrow> addr \<Rightarrow> (heap \<times> addr) option" where
  "python_deepcopy limit hp x =
     (case copy_deepcopy limit hp Map.empty x of None \<Rightarrow> None | Some (y, hp', m) \<Rightarrow> Some (hp', y))"

definition python_copy :: "heap \<Rightarrow> addr \<Rightarrow> (heap \<times> addr) option" where
  "python_copy hp x =
     (case lookup hp x of
        Some (PyList items) \<Rightarrow> Some (hp @ [PyList items], length hp)
      | Some (PyDict pairs) \<Rightarrow> Some (hp @ [PyDict pairs], length hp)
      | Some (PySet items) \<Rightarrow> Some (hp @ [PySet items], length hp)
      | Some (PyTuple items) \<Rightarrow> Some (hp, x)
      | Some Atom \<Rightarrow> Some (hp, x)
      | _ \<Rightarrow> None)"

definition python_copier :: "nat \<Rightarrow> copy_module" where
  "python_copier limit = \<lparr>deepcopy = python_deepcopy limit, copy = python_copy\<rparr>"

subsection \<open>What a call leaves unchanged\<close>



fun refs :: "pyobj \<Rightarrow> addr list" where
  "refs (PyList items) = items"
| "refs (PyTuple items) = items"
| "refs (PyDict pairs) = items_of pairs"
| "refs (PySet items) = items"
| "refs (Generator items) = items"
| "refs Atom = []"
| "refs Module = []"


















subsection \<open>An object copied twice\<close>

text \<open>
  The list \<^verbatim>\<open>[sys, s, [s]]\<close> with \<^verbatim>\<open>s = []\<close>: object 0 is the list, 1 the module, 2 the
  list \<^verbatim>\<open>s\<close> and 3 the list \<^verbatim>\<open>[s]\<close>.
\<close>

definition result_of :: "(addr \<times> heap \<times> memo) option \<Rightarrow> (addr \<times> heap) option" where
  "result_of x = map_option (\<lambda>(r, hp, m). (r, hp)) x"



text \<open>
  The tuple \<^verbatim>\<open>(sys,)\<close>: the value returned is a generator object, not a tuple.
\<close>

definition tuple_heap :: heap where
  "tuple_heap = [PyTuple [1], Module]"

lemma deepish_copy_tuple_generator:
  "result_of (deepish_copy 3 (python_copier 10) 0 (tuple_heap, Map.empty))
     = Some (2, tuple_heap @ [Generator [1]])"
  by code_simp

subsection \<open>What every call does\<close>









subsection \<open>A cyclic list\<close>




end
